theory Spec2Isabelle
  imports Main "HOL-Library.Word"
begin

unbundle bit_operations_syntax

section \<open>Bytes and buffers\<close>

text \<open>
  Bytes are \<open>uint8_t\<close>; a buffer that the code allocates or receives with a known
  size is the list of its bytes. Arbitrary-precision integers (\<open>mpz_t\<close>) are \<open>int\<close>.
  A call that does not return to its caller (the library aborts on a division by
  zero, a loop never ends) has the value \<open>None\<close>.
\<close>

type_synonym u8 = "8 word"

text \<open>\<open>memcpy(dst + off, src, n)\<close>: \<open>n\<close> bytes of \<open>src\<close> replace those of \<open>dst\<close> from
  offset \<open>off\<close> on.\<close>

definition memcpy :: "u8 list \<Rightarrow> nat \<Rightarrow> u8 list \<Rightarrow> nat \<Rightarrow> u8 list" where
  "memcpy dst off src n = take off dst @ take n src @ drop (off + n) dst"

text \<open>\<open>memset(dst, 0, n)\<close>.\<close>

definition memset0 :: "u8 list \<Rightarrow> nat \<Rightarrow> u8 list" where
  "memset0 dst n = replicate n 0 @ drop n dst"

text \<open>The loop \<open>for (i = 0; i < n; i++) a[i] = a[i] ^ b[i]\<close>; bytes of \<open>a\<close> from \<open>n\<close> on
  are kept.\<close>

definition xor_into :: "nat \<Rightarrow> u8 list \<Rightarrow> u8 list \<Rightarrow> u8 list" where
  "xor_into n a b = map (\<lambda>i. a ! i XOR b ! i) [0..<n] @ drop n a"

text \<open>\<open>mpz_import(a, count, 1, 1, 0, 0, h)\<close>: the first \<open>count\<close> bytes of \<open>h\<close>, most
  significant first.\<close>

definition mpz_import :: "nat \<Rightarrow> u8 list \<Rightarrow> int" where
  "mpz_import count h = foldl (\<lambda>a b. a * 256 + uint b) 0 (take count h)"

text \<open>\<open>mpz_mod(r, v, q)\<close>: the remainder is never negative, the sign of \<open>q\<close> is
  ignored, and GMP aborts on \<open>q = 0\<close>.\<close>

definition mpz_mod :: "int \<Rightarrow> int \<Rightarrow> int option" where
  "mpz_mod v q = (if q = 0 then None else Some (v mod \<bar>q\<bar>))"

section \<open>Security profile (security.c)\<close>

type_synonym HashFn = "u8 list \<Rightarrow> u8 list"

record BFSecurityLevel =
  level :: u8
  n_p :: "32 word"
  n_q :: "32 word"
  hashlen :: nat
  hashfcn :: HashFn

text \<open>The digest functions of OpenSSL that \<open>setup_security\<close> stores in the profile.\<close>

record openssl =
  SHA1 :: HashFn
  SHA224 :: HashFn
  SHA256 :: HashFn
  SHA384 :: HashFn
  SHA512 :: HashFn

definition setup_security :: "openssl \<Rightarrow> BFSecurityLevel \<Rightarrow> u8 \<Rightarrow> bool \<times> BFSecurityLevel" where
  "setup_security ossl security lv =
     (let s = security\<lparr>level := lv\<rparr> in
      if lv = 1 then (True, s\<lparr>n_p := 512, n_q := 160, hashlen := 20, hashfcn := SHA1 ossl\<rparr>)
      else if lv = 2 then (True, s\<lparr>n_p := 1024, n_q := 224, hashlen := 28, hashfcn := SHA224 ossl\<rparr>)
      else if lv = 3 then (True, s\<lparr>n_p := 1536, n_q := 256, hashlen := 32, hashfcn := SHA256 ossl\<rparr>)
      else if lv = 4 then (True, s\<lparr>n_p := 3840, n_q := 384, hashlen := 48, hashfcn := SHA384 ossl\<rparr>)
      else if lv = 5 then (True, s\<lparr>n_p := 7680, n_q := 512, hashlen := 64, hashfcn := SHA512 ossl\<rparr>)
      else (False, s))"

text \<open>What the code relies on throughout: a digest fills the \<open>hashlen\<close>-byte buffer it
  is given, no more and no less.\<close>

definition digest_sized :: "BFSecurityLevel \<Rightarrow> bool" where
  "digest_sized sec \<longleftrightarrow> (\<forall>d. length (hashfcn sec d) = hashlen sec)"

section \<open>Hash primitives (hash.c)\<close>

subsection \<open>hash_to_range\<close>

function hash_to_range_loop ::
  "HashFn \<Rightarrow> nat \<Rightarrow> u8 list \<Rightarrow> int \<Rightarrow> nat \<Rightarrow> int \<Rightarrow> u8 list \<Rightarrow> int" where
  "hash_to_range_loop H hlen bytes vmul i v h =
     (if i < 2 then
        (let t = take hlen h @ bytes;
             h' = H t;
             a = mpz_import hlen h';
             v' = v * vmul + a
         in hash_to_range_loop H hlen bytes vmul (i + 1) v' h')
      else v)"
  by pat_completeness auto
termination
  by (relation "measure (\<lambda>(H, hlen, bytes, vmul, i, v, h). 2 - i)") auto

declare hash_to_range_loop.simps [simp del]

definition hash_to_range :: "BFSecurityLevel \<Rightarrow> u8 list \<Rightarrow> int \<Rightarrow> int option" where
  "hash_to_range sec bytes q =
     (let hlen = hashlen sec;
          h = replicate hlen 0;
          vmul = 256 ^ hlen;
          v = hash_to_range_loop (hashfcn sec) hlen bytes vmul 0 0 h
      in mpz_mod v q)"

subsection \<open>hash_to_bytes\<close>

text \<open>
  The loop \<open>while (remaining)\<close>. The last block is copied to \<open>result\<close>, the full blocks
  before it to \<open>result + copied\<close>. With \<open>hlen = 0\<close> the loop never advances.
\<close>

partial_function (option) hash_to_bytes_loop ::
  "HashFn \<Rightarrow> nat \<Rightarrow> u8 list \<Rightarrow> u8 list \<Rightarrow> u8 list \<Rightarrow> nat \<Rightarrow> nat \<Rightarrow> u8 list option" where
  "hash_to_bytes_loop H hlen K h result copied remaining =
     (if remaining \<noteq> 0 then
        (let h' = H (take hlen h);
             h_K = take hlen h' @ take hlen K;
             r = H h_K
         in if remaining > hlen
            then hash_to_bytes_loop H hlen K h' (memcpy result copied r hlen)
                   (copied + hlen) (remaining - hlen)
            else hash_to_bytes_loop H hlen K h' (memcpy result 0 r remaining)
                   (copied + remaining) 0)
      else Some result)"

declare hash_to_bytes_loop.simps [code]

definition hash_to_bytes :: "u8 list \<Rightarrow> BFSecurityLevel \<Rightarrow> nat \<Rightarrow> u8 list \<Rightarrow> u8 list option" where
  "hash_to_bytes result sec outlen seed =
     (let hlen = hashlen sec;
          K = hashfcn sec seed;
          h = replicate hlen 0
      in hash_to_bytes_loop (hashfcn sec) hlen K h result 0 outlen)"

subsection \<open>hash_to_point\<close>

text \<open>
  The pairing library (PBC) is not part of the repository. A \<open>pairing_t\<close> is the record
  of the library's operations on the elements of one pairing: \<open>'g1\<close>, \<open>'g2\<close> and \<open>'gt\<close>
  are the elements of G1, G2 and GT. \<open>element_set_str\<close> gives the element after the
  call and the call's return value (the number of characters read, 0 on failure);
  \<open>element_from_bytes\<close> reads the memory at a pointer and gives the element and the
  number of bytes read. \<open>element_cmp\<close> is inequality of elements.
\<close>

record ('g1, 'g2, 'gt) pairing_t =
  element_mul_mpz_G1 :: "'g1 \<Rightarrow> int \<Rightarrow> 'g1"
  element_mul_mpz_G2 :: "'g2 \<Rightarrow> int \<Rightarrow> 'g2"
  element_add_G1 :: "'g1 \<Rightarrow> 'g1 \<Rightarrow> 'g1"
  element_add_G2 :: "'g2 \<Rightarrow> 'g2 \<Rightarrow> 'g2"
  element_from_hash_G2 :: "u8 list \<Rightarrow> 'g2"
  element_pairing :: "'g1 \<Rightarrow> 'g2 \<Rightarrow> 'gt"
  element_pow_mpz_GT :: "'gt \<Rightarrow> int \<Rightarrow> 'gt"
  element_to_bytes_GT :: "'gt \<Rightarrow> u8 list"
  element_to_bytes_G1 :: "'g1 \<Rightarrow> u8 list"
  element_from_bytes_G1 :: "(nat \<Rightarrow> u8) \<Rightarrow> 'g1 \<times> nat"
  element_snprint_G1 :: "'g1 \<Rightarrow> string"
  element_set_str_G1 :: "string \<Rightarrow> 'g1 \<times> nat"
  element_snprint_G2 :: "'g2 \<Rightarrow> string"
  element_set_str_G2 :: "string \<Rightarrow> 'g2 \<times> nat"

text \<open>
  \<open>BFPublicParameters\<close> (bfibe.h). The fields \<open>P\<close> and \<open>q\<close> of the struct are \<open>P_base\<close> and
  \<open>q_ord\<close> here. \<open>P_pub_precomp\<close> holds the element that \<open>pairing_pp_init\<close> was given:
  \<open>pairing_pp_apply(out, in2, p)\<close> is the pairing of that element with \<open>in2\<close>.
  \<open>'par\<close> is the library's curve descriptor (\<open>pbc_param_t\<close>).
\<close>

record ('par, 'g1, 'g2, 'gt) BFPublicParameters =
  security :: BFSecurityLevel
  pbc_par :: 'par
  pairing :: "('g1, 'g2, 'gt) pairing_t"
  P_base :: 'g1
  P_pub :: 'g1
  P_pub_precomp :: 'g1
  q_ord :: int

text \<open>\<open>BFMessage\<close> (bfibe.h): the fields \<open>length\<close>, \<open>U\<close>, \<open>V\<close>, \<open>W\<close>.\<close>

record 'g1 BFMessage =
  msg_length :: nat
  msg_U :: 'g1
  msg_V :: "u8 list"
  msg_W :: "u8 list"

definition pairing_pp_apply :: "('g1, 'g2, 'gt) pairing_t \<Rightarrow> 'g2 \<Rightarrow> 'g1 \<Rightarrow> 'gt" where
  "pairing_pp_apply pr in2 p = element_pairing pr p in2"

definition hash_to_point :: "('par, 'g1, 'g2, 'gt) BFPublicParameters \<Rightarrow> u8 list \<Rightarrow> 'g2" where
  "hash_to_point params input =
     (let hlen = hashlen (security params);
          md = hashfcn (security params) input
      in element_from_hash_G2 (pairing params) (take hlen md))"

section \<open>The engine (bfibe.c)\<close>

text \<open>
  \<open>bf_generate_shard\<close>: \<open>rnd\<close> is the value \<open>pbc_mpz_random(s, smax)\<close> draws, between 0 and
  \<open>smax - 1\<close> with \<open>smax = q - 2\<close>. The result is the refreshed parameters and the secret.
\<close>

definition bf_generate_shard ::
  "('par, 'g1, 'g2, 'gt) BFPublicParameters \<Rightarrow> int \<Rightarrow> ('par, 'g1, 'g2, 'gt) BFPublicParameters \<times> int" where
  "bf_generate_shard params rnd =
     (let s = rnd + 2;
          Ppub = element_mul_mpz_G1 (pairing params) (P_base params) s
      in (params\<lparr>P_pub := Ppub, P_pub_precomp := Ppub\<rparr>, s))"

text \<open>An identifier is the bytes of the C string before its terminating zero.\<close>

definition bf_generate_public_key ::
  "('par, 'g1, 'g2, 'gt) BFPublicParameters \<Rightarrow> u8 list \<Rightarrow> 'g2" where
  "bf_generate_public_key params identifier = hash_to_point params identifier"

definition bf_generate_private_key ::
  "('par, 'g1, 'g2, 'gt) BFPublicParameters \<Rightarrow> int \<Rightarrow> u8 list \<Rightarrow> 'g2" where
  "bf_generate_private_key params s identifier =
     element_mul_mpz_G2 (pairing params) (hash_to_point params identifier) s"

text \<open>
  \<open>bf_encrypt\<close>: \<open>m\<close> is the \<open>len\<close> bytes of the plaintext, \<open>rand\<close> what
  \<open>RAND_bytes(rho, hlen)\<close> delivers: \<open>None\<close> when it fails, else the \<open>hlen\<close> bytes of
  \<open>rho\<close>. The inner \<open>None\<close> of the result is the \<open>NULL\<close> that the function returns.
\<close>

definition bf_encrypt ::
  "('par, 'g1, 'g2, 'gt) BFPublicParameters \<Rightarrow> 'g2 \<Rightarrow> u8 list \<Rightarrow> u8 list option \<Rightarrow>
   'g1 BFMessage option option" where
  "bf_encrypt params public_key m rand =
     (let len = length m;
          hlen = hashlen (security params);
          H = hashfcn (security params);
          pr = pairing params
      in case rand of
           None \<Rightarrow> Some None
         | Some rho \<Rightarrow>
            (let t = H m;
                 rho_t = take hlen rho @ take hlen t
             in case hash_to_range (security params) rho_t (q_ord params) of
                  None \<Rightarrow> None
                | Some l \<Rightarrow>
                   (let U = element_mul_mpz_G1 pr (P_base params) l;
                        theta = element_pow_mpz_GT pr
                                  (pairing_pp_apply pr public_key (P_pub_precomp params)) l;
                        z = element_to_bytes_GT pr theta;
                        V = xor_into hlen (H z) rho
                    in case hash_to_bytes (replicate len 0) (security params) len (take hlen rho) of
                         None \<Rightarrow> None
                       | Some W0 \<Rightarrow>
                          Some (Some \<lparr>msg_length = len, msg_U = U, msg_V = V,
                                      msg_W = xor_into len W0 m\<rparr>))))"

text \<open>
  \<open>bf_decrypt\<close>: \<open>output\<close> is the caller's buffer as it is on entry. The result is the
  return value and the buffer on return.
\<close>

definition bf_decrypt ::
  "u8 list \<Rightarrow> ('par, 'g1, 'g2, 'gt) BFPublicParameters \<Rightarrow> 'g2 \<Rightarrow> 'g1 BFMessage \<Rightarrow>
   (bool \<times> u8 list) option" where
  "bf_decrypt output params private_key message =
     (let hlen = hashlen (security params);
          H = hashfcn (security params);
          pr = pairing params;
          theta = element_pairing pr (msg_U message) private_key;
          z = element_to_bytes_GT pr theta;
          w = xor_into hlen (H z) (msg_V message)
      in case hash_to_bytes output (security params) (msg_length message) (take hlen w) of
           None \<Rightarrow> None
         | Some output1 \<Rightarrow>
            (let output2 = xor_into (msg_length message) output1 (msg_W message);
                 t = H (take (msg_length message) output2);
                 rho_t = take hlen w @ take hlen t
             in case hash_to_range (security params) rho_t (q_ord params) of
                  None \<Rightarrow> None
                | Some l \<Rightarrow>
                   (let lP = element_mul_mpz_G1 pr (P_base params) l
                    in if msg_U message \<noteq> lP
                       then Some (False, memset0 output2 (msg_length message))
                       else Some (True, output2))))"

section \<open>Ciphertext bytes (export.c)\<close>

text \<open>
  The byte format holds the object representation of a \<open>size_t\<close>, which depends on the
  host: its width and its byte order.
\<close>

record host =
  sizeof_size_t :: nat
  big_endian :: bool

definition le_bytes :: "nat \<Rightarrow> nat \<Rightarrow> u8 list" where
  "le_bytes k n = map (\<lambda>i. word_of_nat (n div 256 ^ i)) [0..<k]"

definition le_value :: "u8 list \<Rightarrow> nat" where
  "le_value bs = foldr (\<lambda>b a. unat b + 256 * a) bs 0"

definition size_t_bytes :: "host \<Rightarrow> nat \<Rightarrow> u8 list" where
  "size_t_bytes hst n =
     (if big_endian hst then rev (le_bytes (sizeof_size_t hst) n)
      else le_bytes (sizeof_size_t hst) n)"

definition size_t_value :: "host \<Rightarrow> u8 list \<Rightarrow> nat" where
  "size_t_value hst bs = (if big_endian hst then le_value (rev bs) else le_value bs)"

text \<open>The bytes at a pointer: \<open>n\<close> bytes of the memory \<open>mem\<close> from offset \<open>off\<close> on.\<close>

definition mem_read :: "(nat \<Rightarrow> u8) \<Rightarrow> nat \<Rightarrow> nat \<Rightarrow> u8 list" where
  "mem_read mem off n = map mem [off..<off + n]"

text \<open>\<open>bf_message_to_bytes\<close>: the buffer written to \<open>*out\<close> and the size returned.\<close>

definition bf_message_to_bytes ::
  "host \<Rightarrow> ('par, 'g1, 'g2, 'gt) BFPublicParameters \<Rightarrow> 'g1 BFMessage \<Rightarrow> u8 list \<times> nat" where
  "bf_message_to_bytes hst params msg =
     (let size_size = sizeof_size_t hst;
          hlen = hashlen (security params);
          U_bytes = element_to_bytes_G1 (pairing params) (msg_U msg);
          element_size = length U_bytes;
          output_size = size_size + 1 + element_size + hlen + msg_length msg
      in (size_t_bytes hst (msg_length msg) @ [level (security params)] @ U_bytes
            @ take hlen (msg_V msg) @ take (msg_length msg) (msg_W msg),
          output_size))"

text \<open>
  \<open>bf_message_from_bytes\<close>: \<open>inp\<close> is the memory at the pointer \<open>in\<close>; the function is not
  told how many bytes of it belong to the caller. \<open>None\<close> is the return value \<open>false\<close>.
\<close>

definition bf_message_from_bytes ::
  "host \<Rightarrow> (nat \<Rightarrow> u8) \<Rightarrow> ('par, 'g1, 'g2, 'gt) BFPublicParameters \<Rightarrow> 'g1 BFMessage option" where
  "bf_message_from_bytes hst inp params =
     (let size_size = sizeof_size_t hst;
          hlen = hashlen (security params);
          len = size_t_value hst (mem_read inp 0 size_size);
          lv = inp size_size
      in if lv \<noteq> level (security params) then None
         else
          (let (U, ele_bytes) = element_from_bytes_G1 (pairing params) (\<lambda>i. inp (size_size + 1 + i));
               off = size_size + 1 + ele_bytes;
               V = mem_read inp off hlen;
               W = mem_read inp (off + hlen) len
           in Some \<lparr>msg_length = len, msg_U = U, msg_V = V, msg_W = W\<rparr>))"

section \<open>The facade (api.c)\<close>

text \<open>The conversion of a \<open>size_t\<close> to \<open>int\<close> for \<open>*out_length\<close>.\<close>

definition int_of_size_t :: "nat \<Rightarrow> int" where
  "int_of_size_t n = sint (word_of_nat n :: 32 word)"

text \<open>
  \<open>decrypt_ibe\<close>: the inner \<open>None\<close> is the \<open>NULL\<close> returned, otherwise the buffer
  returned and \<open>*out_length\<close>. \<open>ciphertext_len\<close> is not used.
\<close>

definition decrypt_ibe ::
  "host \<Rightarrow> ('par, 'g1, 'g2, 'gt) BFPublicParameters \<Rightarrow> 'g2 \<Rightarrow> (nat \<Rightarrow> u8) \<Rightarrow> int \<Rightarrow>
   (u8 list \<times> int) option option" where
  "decrypt_ibe hst params private_key ciphertext ciphertext_len =
     (case bf_message_from_bytes hst ciphertext params of
        None \<Rightarrow> Some None
      | Some msg \<Rightarrow>
         (let msg_bytes = replicate (msg_length msg) 0
          in case bf_decrypt msg_bytes params private_key msg of
               None \<Rightarrow> None
             | Some (ok, out) \<Rightarrow> Some (Some (out, int_of_size_t (msg_length msg)))))"




section \<open>Numbers as text\<close>

text \<open>
  The digits that \<open>fprintf\<close>, \<open>mpz_out_str\<close> and \<open>mpz_inp_str\<close> write and read: \<open>0\<close> to
  \<open>9\<close>, then the letters; for a base up to 36 the letters are written in lower case
  and read in either case.
\<close>

definition digit_char :: "nat \<Rightarrow> char" where
  "digit_char d = char_of (if d < 10 then 48 + d else 87 + d)"

definition char_digit :: "char \<Rightarrow> nat option" where
  "char_digit c =
     (let n = (of_char c :: nat) in
      if 48 \<le> n \<and> n \<le> 57 then Some (n - 48)
      else if 97 \<le> n \<and> n \<le> 122 then Some (n - 87)
      else if 65 \<le> n \<and> n \<le> 90 then Some (n - 55)
      else None)"

definition is_digit :: "nat \<Rightarrow> char \<Rightarrow> bool" where
  "is_digit base c = (case char_digit c of None \<Rightarrow> False | Some d \<Rightarrow> d < base)"

definition isspace :: "char \<Rightarrow> bool" where
  "isspace c = (let n = (of_char c :: nat) in n = 32 \<or> (9 \<le> n \<and> n \<le> 13))"

function digits_of :: "nat \<Rightarrow> nat \<Rightarrow> nat list" where
  "digits_of base n =
     (if n < base \<or> base < 2 then [n] else digits_of base (n div base) @ [n mod base])"
  by pat_completeness auto
termination
  by (relation "measure (\<lambda>(base, n). n)") auto

declare digits_of.simps [simp del]

definition nat_str :: "nat \<Rightarrow> nat \<Rightarrow> string" where
  "nat_str base n = map digit_char (digits_of base n)"

definition digits_value :: "nat \<Rightarrow> string \<Rightarrow> nat" where
  "digits_value base ds = foldl (\<lambda>a c. a * base + the (char_digit c)) 0 ds"

section \<open>Public parameters as text (export.c, api.c)\<close>

text \<open>
  The part of PBC that builds a pairing: \<open>pbc_param_out_str\<close> writes a curve descriptor
  as text, \<open>pbc_param_init_set_str\<close> reads one (\<open>None\<close> when it returns non-zero) and
  \<open>pairing_init_pbc_param\<close> gives the pairing of a descriptor. \<open>element_fprintf\<close> with
  \<open>%B\<close> writes an element as \<open>element_snprint\<close> does.
\<close>

record ('par, 'g1, 'g2, 'gt) pbc =
  pbc_param_out_str :: "'par \<Rightarrow> string"
  pbc_param_init_set_str :: "string \<Rightarrow> 'par option"
  pairing_init_pbc_param :: "'par \<Rightarrow> ('g1, 'g2, 'gt) pairing_t"

definition MPZ_OUTPUT_BASE :: nat where
  "MPZ_OUTPUT_BASE = 36"

definition BUFFER_SIZE :: nat where
  "BUFFER_SIZE = 8192"

definition newline :: char where
  "newline = CHR 0x0A"

text \<open>What \<open>strlen\<close> sees of the characters at a \<open>char *\<close>: those before the first zero.\<close>

definition c_string :: "string \<Rightarrow> string" where
  "c_string s = takeWhile (\<lambda>c. c \<noteq> CHR 0x00) s"

subsection \<open>Streams\<close>

text \<open>
  A stream that is read is the characters not yet read. \<open>mpz_out_str\<close> writes a minus
  sign and the digits; \<open>mpz_inp_str\<close> skips white space, reads a minus sign and the
  digits, and returns 0 (\<open>None\<close>) when there is no digit.
\<close>

definition mpz_out_str :: "nat \<Rightarrow> int \<Rightarrow> string" where
  "mpz_out_str base v = (if v < 0 then ''-'' else []) @ nat_str base (nat \<bar>v\<bar>)"

definition mpz_inp_str :: "nat \<Rightarrow> string \<Rightarrow> (int \<times> string) option" where
  "mpz_inp_str base s =
     (let s1 = dropWhile isspace s;
          negative = (s1 \<noteq> [] \<and> hd s1 = CHR ''-'');
          s2 = (if negative then tl s1 else s1);
          ds = takeWhile (is_digit base) s2
      in if ds = [] then None
         else Some (if negative then - int (digits_value base ds) else int (digits_value base ds),
                    dropWhile (is_digit base) s2))"

text \<open>\<open>fgets(buf, n, in)\<close>: at most \<open>n - 1\<close> characters, up to and including the first
  newline; \<open>NULL\<close> at the end of the stream.\<close>

definition fgets :: "nat \<Rightarrow> string \<Rightarrow> (string \<times> string) option" where
  "fgets n s =
     (if s = [] then None
      else (let line = takeWhile (\<lambda>c. c \<noteq> newline) s;
                k = (if length line < length s then length line + 1 else length line);
                got = min k (n - 1)
            in Some (take got s, drop got s)))"

text \<open>
  \<open>fscanf\<close>: an input failure is the end of the stream before the first conversion
  (the call returns \<open>EOF\<close>), a matching failure a character that does not fit (the call
  returns the number of conversions made). \<open>%hhu\<close> skips white space, reads a sign and
  decimal digits, and stores the number modulo 256.
\<close>

datatype 'a scanned = Input_failure | Matching_failure | Scanned 'a string

fun match_literal :: "string \<Rightarrow> string \<Rightarrow> unit scanned" where
  "match_literal [] s = Scanned () s"
| "match_literal (c # cs) [] = Input_failure"
| "match_literal (c # cs) (d # ds) = (if c = d then match_literal cs ds else Matching_failure)"

definition scan_u8 :: "string \<Rightarrow> u8 scanned" where
  "scan_u8 s =
     (let s1 = dropWhile isspace s in
      if s1 = [] then Input_failure
      else (let sign = (hd s1 = CHR ''-'' \<or> hd s1 = CHR ''+'');
                s2 = (if sign then tl s1 else s1);
                ds = takeWhile (is_digit 10) s2;
                v = (word_of_nat (digits_value 10 ds) :: u8)
            in if ds = [] then Matching_failure
               else Scanned (if hd s1 = CHR ''-'' then - v else v) (dropWhile (is_digit 10) s2)))"

text \<open>\<open>fscanf(in, "security %hhu\n", &security_level)\<close>: the white space of the format
  matches any white space of the input, also none.\<close>

definition fscanf_security :: "string \<Rightarrow> u8 scanned" where
  "fscanf_security s =
     (case match_literal ''security'' s of
        Input_failure \<Rightarrow> Input_failure
      | Matching_failure \<Rightarrow> Matching_failure
      | Scanned u s1 \<Rightarrow>
         (case scan_u8 (dropWhile isspace s1) of
            Input_failure \<Rightarrow> Input_failure
          | Matching_failure \<Rightarrow> Matching_failure
          | Scanned security_level s2 \<Rightarrow> Scanned security_level (dropWhile isspace s2)))"

subsection \<open>bf_params_to_file and bf_params_from_file\<close>

definition bf_params_to_file ::
  "('par, 'g1, 'g2, 'gt) pbc \<Rightarrow> ('par, 'g1, 'g2, 'gt) BFPublicParameters \<Rightarrow> string" where
  "bf_params_to_file lib params =
     ''security '' @ nat_str 10 (unat (level (security params))) @ [newline]
     @ element_snprint_G1 (pairing params) (P_base params) @ [newline]
     @ element_snprint_G1 (pairing params) (P_pub params) @ [newline]
     @ mpz_out_str MPZ_OUTPUT_BASE (q_ord params) @ [newline]
     @ pbc_param_out_str lib (pbc_par params)"

text \<open>
  \<open>bf_params_from_file\<close>: \<open>security0\<close> is the field \<open>security\<close> of the struct that the
  caller passes. The result is \<open>None\<close> when the function returns \<open>false\<close>; the struct is
  then not filled in. When \<open>fscanf\<close> returns \<open>EOF\<close> the function goes on, as it only
  tests for 0; the stream is at its end, \<open>fgets\<close> returns \<open>NULL\<close> and the function
  returns \<open>false\<close> there.
\<close>

definition bf_params_from_file ::
  "('par, 'g1, 'g2, 'gt) pbc \<Rightarrow> openssl \<Rightarrow> string \<Rightarrow> BFSecurityLevel \<Rightarrow>
   ('par, 'g1, 'g2, 'gt) BFPublicParameters option" where
  "bf_params_from_file lib ossl inp security0 =
     (case fscanf_security inp of
        Matching_failure \<Rightarrow> None
      | Input_failure \<Rightarrow> None
      | Scanned security_level in1 \<Rightarrow>
         (let sec = snd (setup_security ossl security0 security_level) in
          case fgets BUFFER_SIZE in1 of
            None \<Rightarrow> None
          | Some (P_buf, in2) \<Rightarrow>
             (case fgets BUFFER_SIZE in2 of
                None \<Rightarrow> None
              | Some (P_pub_buf, in3) \<Rightarrow>
                 (case mpz_inp_str MPZ_OUTPUT_BASE in3 of
                    None \<Rightarrow> None
                  | Some (q, param_buf) \<Rightarrow>
                     if param_buf = [] then None
                     else (case pbc_param_init_set_str lib param_buf of
                             None \<Rightarrow> None
                           | Some par \<Rightarrow>
                              (let pr = pairing_init_pbc_param lib par;
                                   P = element_set_str_G1 pr P_buf;
                                   Ppub = element_set_str_G1 pr P_pub_buf
                               in if snd P = 0 then None
                                  else if snd Ppub = 0 then None
                                  else Some \<lparr>security = sec, pbc_par = par, pairing = pr,
                                         P_base = fst P, P_pub = fst Ppub,
                                         P_pub_precomp = fst Ppub, q_ord = q\<rparr>))))))"

definition bf_params_to_string ::
  "('par, 'g1, 'g2, 'gt) pbc \<Rightarrow> ('par, 'g1, 'g2, 'gt) BFPublicParameters \<Rightarrow> string" where
  "bf_params_to_string lib params = bf_params_to_file lib params"

definition bf_params_from_string ::
  "('par, 'g1, 'g2, 'gt) pbc \<Rightarrow> openssl \<Rightarrow> string \<Rightarrow> BFSecurityLevel \<Rightarrow>
   ('par, 'g1, 'g2, 'gt) BFPublicParameters option" where
  "bf_params_from_string lib ossl inp security0 =
     bf_params_from_file lib ossl (c_string inp) security0"

subsection \<open>The facade: copies and sums of public parameters\<close>

text \<open>A struct as \<open>calloc\<close> returns it; the digest function of the null pointer is
  never called.\<close>

definition calloc_security :: BFSecurityLevel where
  "calloc_security = \<lparr>level = 0, n_p = 0, n_q = 0, hashlen = 0, hashfcn = (\<lambda>d. [])\<rparr>"

definition format_system_params ::
  "('par, 'g1, 'g2, 'gt) pbc \<Rightarrow> ('par, 'g1, 'g2, 'gt) BFPublicParameters \<Rightarrow> string" where
  "format_system_params lib params = bf_params_to_string lib params"

text \<open>
  \<open>parse_system_params\<close> does not look at what \<open>bf_params_from_string\<close> returns: \<open>None\<close>
  is a struct whose elements and precomputation were never initialised.
\<close>

definition parse_system_params ::
  "('par, 'g1, 'g2, 'gt) pbc \<Rightarrow> openssl \<Rightarrow> string \<Rightarrow>
   ('par, 'g1, 'g2, 'gt) BFPublicParameters option" where
  "parse_system_params lib ossl param_string =
     bf_params_from_string lib ossl param_string calloc_security"

definition copy_params ::
  "('par, 'g1, 'g2, 'gt) pbc \<Rightarrow> openssl \<Rightarrow> ('par, 'g1, 'g2, 'gt) BFPublicParameters \<Rightarrow>
   ('par, 'g1, 'g2, 'gt) BFPublicParameters option" where
  "copy_params lib ossl params = parse_system_params lib ossl (format_system_params lib params)"

text \<open>
  \<open>add_public\<close>: \<open>Some None\<close> is the \<open>NULL\<close> that the function returns. On a copy that
  was not filled in, \<open>pairing_pp_clear\<close> follows a null pointer and the call does not
  return: \<open>None\<close>. The sum is computed in the group of the copy.
\<close>

definition add_public ::
  "('par, 'g1, 'g2, 'gt) pbc \<Rightarrow> openssl \<Rightarrow> ('par, 'g1, 'g2, 'gt) BFPublicParameters \<Rightarrow>
   ('par, 'g1, 'g2, 'gt) BFPublicParameters \<Rightarrow>
   ('par, 'g1, 'g2, 'gt) BFPublicParameters option option" where
  "add_public lib ossl params1 params2 =
     (if level (security params1) \<noteq> level (security params2) \<or> q_ord params1 \<noteq> q_ord params2
      then Some None
      else (case copy_params lib ossl params1 of
              None \<Rightarrow> None
            | Some params_result \<Rightarrow>
               (let Ppub = element_add_G1 (pairing params_result) (P_pub params1) (P_pub params2)
                in Some (Some (params_result\<lparr>P_pub := Ppub, P_pub_precomp := Ppub\<rparr>)))))"

section \<open>Reference definitions\<close>

text \<open>
  The definitions of this section are not translations of the code. They restate the
  specification's words for the two hash primitives and name the quantities that the
  statements about the code speak of.
\<close>

subsection \<open>The specification's hash_to_range\<close>

fun big_endian_int :: "u8 list \<Rightarrow> int" where
  "big_endian_int [] = 0"
| "big_endian_int (b # bs) = uint b * 256 ^ length bs + big_endian_int bs"

text \<open>With \<open>M = 256^hlen\<close> and \<open>h\<^sub>0 = 0^hlen\<close>: \<open>h\<^sub>i\<^sub>+\<^sub>1 = H(h\<^sub>i || b)\<close>, \<open>a\<^sub>i\<^sub>+\<^sub>1\<close> the
  big-endian integer of \<open>h\<^sub>i\<^sub>+\<^sub>1\<close>, and the result \<open>(a\<^sub>1 * M + a\<^sub>2) mod q\<close>.\<close>

definition spec_hash_to_range :: "HashFn \<Rightarrow> nat \<Rightarrow> u8 list \<Rightarrow> int \<Rightarrow> int" where
  "spec_hash_to_range H hlen b q =
     (let M = 256 ^ hlen;
          h0 = replicate hlen 0;
          h1 = H (h0 @ b);
          h2 = H (h1 @ b);
          a1 = big_endian_int h1;
          a2 = big_endian_int h2
      in (a1 * M + a2) mod q)"

subsection \<open>The specification's hash_to_bytes\<close>

text \<open>Each round: \<open>h \<leftarrow> H(h)\<close>, \<open>r \<leftarrow> H(h || K)\<close>, and \<open>min(hlen, remaining)\<close> bytes of
  \<open>r\<close> are appended to the output; the rounds end when \<open>outlen\<close> bytes are produced.\<close>

function spec_hash_to_bytes_rounds :: "HashFn \<Rightarrow> nat \<Rightarrow> u8 list \<Rightarrow> u8 list \<Rightarrow> nat \<Rightarrow> u8 list" where
  "spec_hash_to_bytes_rounds H hlen K h remaining =
     (if remaining = 0 \<or> hlen = 0 then []
      else (let h' = H h;
                r = H (h' @ K)
            in take (min hlen remaining) r
               @ spec_hash_to_bytes_rounds H hlen K h' (remaining - min hlen remaining)))"
  by pat_completeness auto
termination
  by (relation "measure (\<lambda>(H, hlen, K, h, remaining). remaining)") auto

declare spec_hash_to_bytes_rounds.simps [simp del]

definition spec_hash_to_bytes :: "HashFn \<Rightarrow> nat \<Rightarrow> u8 list \<Rightarrow> nat \<Rightarrow> u8 list" where
  "spec_hash_to_bytes H hlen seed outlen =
     spec_hash_to_bytes_rounds H hlen (H seed) (replicate hlen 0) outlen"

subsection \<open>The loop of hash_to_bytes as a total function\<close>

text \<open>The loop of \<open>hash_to_bytes\<close> once more, by recursion on \<open>remaining\<close>: for
  \<open>hlen > 0\<close> it is what \<open>hash_to_bytes_loop\<close> returns (lemma
  \<open>hash_to_bytes_loop_run\<close>).\<close>

function hash_to_bytes_run ::
  "HashFn \<Rightarrow> nat \<Rightarrow> u8 list \<Rightarrow> u8 list \<Rightarrow> u8 list \<Rightarrow> nat \<Rightarrow> nat \<Rightarrow> u8 list" where
  "hash_to_bytes_run H hlen K h result copied remaining =
     (if remaining \<noteq> 0 \<and> hlen \<noteq> 0 then
        (let h' = H (take hlen h);
             r = H (take hlen h' @ take hlen K)
         in if remaining > hlen
            then hash_to_bytes_run H hlen K h' (memcpy result copied r hlen)
                   (copied + hlen) (remaining - hlen)
            else memcpy result 0 r remaining)
      else result)"
  by pat_completeness auto
termination
  by (relation "measure (\<lambda>(H, hlen, K, h, result, copied, remaining). remaining)") auto

declare hash_to_bytes_run.simps [simp del]

text \<open>The offset at which the last block of an output of \<open>n\<close> bytes belongs:
  \<open>t * hlen\<close> with \<open>t = ceil(n / hlen) - 1\<close>.\<close>

definition last_block_offset :: "nat \<Rightarrow> nat \<Rightarrow> nat" where
  "last_block_offset hlen n = ((n - 1) div hlen) * hlen"

subsection \<open>Encryption followed by decryption\<close>

text \<open>The sequence of app/benchmark.c: the keys of an identifier, \<open>bf_encrypt\<close>, then
  \<open>bf_decrypt\<close> into the buffer \<open>output\<close>.\<close>

definition encrypt_then_decrypt ::
  "u8 list \<Rightarrow> ('par, 'g1, 'g2, 'gt) BFPublicParameters \<Rightarrow> int \<Rightarrow> u8 list \<Rightarrow> u8 list \<Rightarrow>
   u8 list option \<Rightarrow> (bool \<times> u8 list) option" where
  "encrypt_then_decrypt output params s identifier m rand =
     (case bf_encrypt params (bf_generate_public_key params identifier) m rand of
        Some (Some message) \<Rightarrow>
          bf_decrypt output params (bf_generate_private_key params s identifier) message
      | _ \<Rightarrow> None)"

subsection \<open>What the engine relies on\<close>

text \<open>Bilinearity of the pairing, in both arguments.\<close>

definition bilinear :: "('g1, 'g2, 'gt) pairing_t \<Rightarrow> bool" where
  "bilinear pr \<longleftrightarrow>
     (\<forall>a b k. element_pairing pr (element_mul_mpz_G1 pr a k) b
                = element_pow_mpz_GT pr (element_pairing pr a b) k) \<and>
     (\<forall>a b k. element_pairing pr a (element_mul_mpz_G2 pr b k)
                = element_pow_mpz_GT pr (element_pairing pr a b) k)"

text \<open>
  Parameters as \<open>bf_setup\<close> leaves them, with the secret \<open>s\<close>: digests of \<open>hashlen > 0\<close>
  bytes, a positive order \<open>q\<close>, a bilinear pairing, \<open>P_pub = [s]P\<close> and the
  precomputation built from \<open>P_pub\<close>.
\<close>

definition setup_invariant :: "('par, 'g1, 'g2, 'gt) BFPublicParameters \<Rightarrow> int \<Rightarrow> bool" where
  "setup_invariant params s \<longleftrightarrow>
     digest_sized (security params) \<and> 0 < hashlen (security params) \<and> 0 < q_ord params \<and>
     bilinear (pairing params) \<and>
     P_pub params = element_mul_mpz_G1 (pairing params) (P_base params) s \<and>
     P_pub_precomp params = P_pub params"

text \<open>The positions of an output of \<open>n\<close> bytes that belong to the last block when there
  is more than one block: from \<open>t * hlen\<close> to the end.\<close>

definition in_last_block :: "nat \<Rightarrow> nat \<Rightarrow> nat \<Rightarrow> bool" where
  "in_last_block hlen n i \<longleftrightarrow> hlen < n \<and> last_block_offset hlen n \<le> i \<and> i < n"

subsection \<open>Buffers in memory\<close>

text \<open>The memory at a pointer to a buffer that holds \<open>bs\<close>: the bytes of \<open>bs\<close>, then
  whatever lies behind the buffer.\<close>

definition memory_of :: "u8 list \<Rightarrow> (nat \<Rightarrow> u8) \<Rightarrow> nat \<Rightarrow> u8" where
  "memory_of bs behind i = (if i < length bs then bs ! i else behind (i - length bs))"

text \<open>The library reads the element \<open>U\<close> of G1 back from the bytes that it writes for
  it, wherever they lie, and reports their number.\<close>

definition reads_back :: "('g1, 'g2, 'gt) pairing_t \<Rightarrow> 'g1 \<Rightarrow> bool" where
  "reads_back pr U \<longleftrightarrow>
     (\<forall>mem. (\<forall>i<length (element_to_bytes_G1 pr U). mem i = element_to_bytes_G1 pr U ! i)
        \<longrightarrow> element_from_bytes_G1 pr mem = (U, length (element_to_bytes_G1 pr U)))"

subsection \<open>Adding secrets, as the specification describes it\<close>


subsection \<open>Parameters that survive their text\<close>

text \<open>
  What \<open>copy_params\<close> needs of the library for the element \<open>x\<close> of G1: its text is one
  line that fits the buffer of \<open>bf_params_from_file\<close>, does not begin with white space,
  and is read back as \<open>x\<close> with the newline after it.
\<close>

definition element_as_text :: "('g1, 'g2, 'gt) pairing_t \<Rightarrow> 'g1 \<Rightarrow> bool" where
  "element_as_text pr x \<longleftrightarrow>
     (let s = element_snprint_G1 pr x in
      s \<noteq> [] \<and> \<not> isspace (hd s) \<and> newline \<notin> set s \<and> CHR 0x00 \<notin> set s \<and>
      length s < BUFFER_SIZE - 1 \<and>
      fst (element_set_str_G1 pr (s @ [newline])) = x \<and>
      snd (element_set_str_G1 pr (s @ [newline])) \<noteq> 0)"

text \<open>
  Parameters as \<open>bf_setup\<close> leaves them: the security profile is that of the level, the
  pairing is that of the curve descriptor, the descriptor is read back from its text
  (which follows a newline in the file), and so are \<open>P\<close> and \<open>P_pub\<close>.
\<close>

definition params_as_text ::
  "('par, 'g1, 'g2, 'gt) pbc \<Rightarrow> openssl \<Rightarrow> ('par, 'g1, 'g2, 'gt) BFPublicParameters \<Rightarrow> bool" where
  "params_as_text lib ossl params \<longleftrightarrow>
     snd (setup_security ossl calloc_security (level (security params))) = security params \<and>
     pairing_init_pbc_param lib (pbc_par params) = pairing params \<and>
     CHR 0x00 \<notin> set (pbc_param_out_str lib (pbc_par params)) \<and>
     pbc_param_init_set_str lib (newline # pbc_param_out_str lib (pbc_par params))
       = Some (pbc_par params) \<and>
     element_as_text (pairing params) (P_base params) \<and>
     element_as_text (pairing params) (P_pub params)"

section \<open>A small instance\<close>

text \<open>
  A concrete pairing and concrete digests, on which the definitions above can be
  run. The curve is the type-A curve \<open>y\<^sup>2 = x\<^sup>3 + x\<close> over the field of 43 elements; it
  has 44 points, and \<open>toy_points\<close> lists its subgroup of order 11, the multiples of
  \<open>(31, 18)\<close> in order. G1 and G2 are this subgroup, the pairing of \<open>[a]G\<close> and \<open>[b]G\<close>
  is \<open>g^(a * b)\<close> for a fixed generator \<open>g\<close> of GT, and an element of GT is held as its
  exponent.
\<close>

datatype point = Infinity | Point int int

definition toy_points :: "point list" where
  "toy_points = [Infinity, Point 31 18, Point 4 38, Point 23 35, Point 13 19, Point 14 36,
                 Point 14 7, Point 13 24, Point 23 8, Point 4 5, Point 31 25]"

definition toy_point :: "int \<Rightarrow> point" where
  "toy_point k = toy_points ! nat (k mod 11)"

fun toy_dlog_from :: "point list \<Rightarrow> point \<Rightarrow> int" where
  "toy_dlog_from [] pt = 0"
| "toy_dlog_from (x # xs) pt = (if x = pt then 0 else 1 + toy_dlog_from xs pt)"

definition toy_dlog :: "point \<Rightarrow> int" where
  "toy_dlog pt = toy_dlog_from toy_points pt mod 11"

fun point_bytes :: "point \<Rightarrow> u8 list" where
  "point_bytes Infinity = [0, 0]"
| "point_bytes (Point x y) = [word_of_int x, word_of_int y]"

definition point_of_bytes :: "(nat \<Rightarrow> u8) \<Rightarrow> point \<times> nat" where
  "point_of_bytes mem =
     (if mem 0 = 0 \<and> mem 1 = 0 then Infinity else Point (uint (mem 0)) (uint (mem 1)), 2)"

fun point_str :: "point \<Rightarrow> string" where
  "point_str Infinity = ''O''"
| "point_str (Point x y) = ''['' @ nat_str 10 (nat x) @ '', '' @ nat_str 10 (nat y) @ '']''"

definition read_nat :: "string \<Rightarrow> (nat \<times> string) option" where
  "read_nat s =
     (let s1 = dropWhile isspace s;
          ds = takeWhile (is_digit 10) s1
      in if ds = [] then None else Some (digits_value 10 ds, dropWhile (is_digit 10) s1))"

definition point_parse :: "string \<Rightarrow> point \<times> nat" where
  "point_parse s =
     (case dropWhile isspace s of
        c # r1 \<Rightarrow>
          if c = CHR ''O'' then (Infinity, length s - length r1)
          else if c = CHR ''['' then
            (case read_nat r1 of
               None \<Rightarrow> (Infinity, 0)
             | Some (x, r2) \<Rightarrow>
                (case dropWhile isspace r2 of
                   c2 # r3 \<Rightarrow>
                     if c2 = CHR '','' then
                       (case read_nat r3 of
                          None \<Rightarrow> (Infinity, 0)
                        | Some (y, r4) \<Rightarrow>
                           (case r4 of
                              c4 # r5 \<Rightarrow>
                                if c4 = CHR '']'' \<and> Point (int x) (int y) \<in> set toy_points
                                then (Point (int x) (int y), length s - length r5)
                                else (Infinity, 0)
                            | [] \<Rightarrow> (Infinity, 0)))
                     else (Infinity, 0)
                 | [] \<Rightarrow> (Infinity, 0)))
          else (Infinity, 0)
      | [] \<Rightarrow> (Infinity, 0))"

definition toy_pairing :: "(point, point, int) pairing_t" where
  "toy_pairing = \<lparr>
     element_mul_mpz_G1 = (\<lambda>pt a. toy_point (toy_dlog pt * a)),
     element_mul_mpz_G2 = (\<lambda>pt a. toy_point (toy_dlog pt * a)),
     element_add_G1 = (\<lambda>a b. toy_point (toy_dlog a + toy_dlog b)),
     element_add_G2 = (\<lambda>a b. toy_point (toy_dlog a + toy_dlog b)),
     element_from_hash_G2 = (\<lambda>md. toy_point (1 + uint (sum_list md) mod 10)),
     element_pairing = (\<lambda>a b. (toy_dlog a * toy_dlog b) mod 11),
     element_pow_mpz_GT = (\<lambda>t a. (t * a) mod 11),
     element_to_bytes_GT = (\<lambda>t. [word_of_int t]),
     element_to_bytes_G1 = point_bytes,
     element_from_bytes_G1 = point_of_bytes,
     element_snprint_G1 = point_str,
     element_set_str_G1 = point_parse,
     element_snprint_G2 = point_str,
     element_set_str_G2 = point_parse\<rparr>"

text \<open>Stand-ins for the digests of OpenSSL, of the right lengths.\<close>

definition toy_digest :: "nat \<Rightarrow> HashFn" where
  "toy_digest n d = (let s = sum_list d + 7 * word_of_nat (length d) + 1
                     in map (\<lambda>i. s + 13 * word_of_nat i) [0..<n])"

definition toy_openssl :: openssl where
  "toy_openssl = \<lparr>SHA1 = toy_digest 20, SHA224 = toy_digest 28, SHA256 = toy_digest 32,
     SHA384 = toy_digest 48, SHA512 = toy_digest 64\<rparr>"

definition toy_security :: "u8 \<Rightarrow> BFSecurityLevel" where
  "toy_security lv = snd (setup_security toy_openssl calloc_security lv)"

text \<open>Parameters of level \<open>lv\<close> with the secret \<open>s = 7\<close>: \<open>bf_generate_shard\<close> with the
  draw 5.\<close>

definition toy_params :: "u8 \<Rightarrow> (string, point, point, int) BFPublicParameters" where
  "toy_params lv = fst (bf_generate_shard
     \<lparr>security = toy_security lv, pbc_par = ''type a'', pairing = toy_pairing,
      P_base = Point 31 18, P_pub = Infinity, P_pub_precomp = Infinity, q_ord = 11\<rparr> 5)"

definition toy_host :: host where
  "toy_host = \<lparr>sizeof_size_t = 8, big_endian = False\<rparr>"

text \<open>The identifier \<open>alice\<close>, 20 bytes for \<open>rho\<close> and a plaintext of 25 bytes.\<close>

definition alice :: "u8 list" where
  "alice = [97, 108, 105, 99, 101]"

definition toy_rho :: "u8 list" where
  "toy_rho = [1, 4, 7, 10, 13, 16, 19, 22, 25, 28, 31, 34, 37, 40, 43, 46, 49, 52, 55, 58]"

definition toy_m :: "u8 list" where
  "toy_m = [2, 7, 12, 17, 22, 27, 32, 37, 42, 47, 52, 57, 62, 67, 72, 77, 82, 87, 92, 97,
            102, 107, 112, 117, 122]"

text \<open>A second identifier, and the ciphertext that \<open>bf_encrypt\<close> gives for \<open>alice\<close>,
  \<open>toy_m\<close> and \<open>toy_rho\<close> at level 1 (lemma \<open>toy_encrypt\<close>).\<close>

definition bob :: "u8 list" where
  "bob = [98, 111, 98]"

definition toy_ct :: "point BFMessage" where
  "toy_ct = \<lparr>msg_length = 25, msg_U = Point 31 25,
     msg_V = [10, 28, 34, 56, 50, 92, 74, 112, 106, 156, 146, 184, 130, 156, 234, 224, 234, 220,
              194, 56],
     msg_W = [207, 221, 235, 229, 23, 221, 243, 197, 199, 213, 51, 45, 31, 109, 115, 5, 7, 53,
              51, 29, 102, 107, 112, 117, 122]\<rparr>"

text \<open>The bytes of \<open>toy_ct\<close> on \<open>toy_host\<close>: the length 25 in eight bytes, the level,
  two bytes for \<open>U\<close>, then \<open>V\<close> and \<open>W\<close>.\<close>

definition toy_ct_bytes :: "u8 list" where
  "toy_ct_bytes =
     [25, 0, 0, 0, 0, 0, 0, 0, 1, 31, 25,
      10, 28, 34, 56, 50, 92, 74, 112, 106, 156, 146, 184, 130, 156, 234, 224, 234, 220, 194, 56,
      207, 221, 235, 229, 23, 221, 243, 197, 199, 213, 51, 45, 31, 109, 115, 5, 7, 53, 51, 29,
      102, 107, 112, 117, 122]"

text \<open>
  The library of the small instance: a descriptor is its own text, read back without
  the white space before it, and every descriptor gives the pairing \<open>toy_pairing\<close>. A
  second shard of the parameters, with the draw 1 and so the secret 3.
\<close>

definition toy_pbc :: "(string, point, point, int) pbc" where
  "toy_pbc = \<lparr>
     pbc_param_out_str = (\<lambda>par. par),
     pbc_param_init_set_str =
       (\<lambda>s. if dropWhile isspace s = [] then None else Some (dropWhile isspace s)),
     pairing_init_pbc_param = (\<lambda>par. toy_pairing)\<rparr>"

definition toy_shard :: "(string, point, point, int) BFPublicParameters" where
  "toy_shard = fst (bf_generate_shard (toy_params 1) 1)"

section \<open>Lemmas: buffers\<close>

lemma memcpy_nth_before:
  "i < off \<Longrightarrow> off \<le> length dst \<Longrightarrow> memcpy dst off src n ! i = dst ! i"
  by (simp add: memcpy_def nth_append)

lemma memcpy_nth_in:
  "off \<le> i \<Longrightarrow> i < off + n \<Longrightarrow> off \<le> length dst \<Longrightarrow> n \<le> length src \<Longrightarrow>
   memcpy dst off src n ! i = src ! (i - off)"
  by (auto simp: memcpy_def nth_append)

lemma memcpy_nth_after:
  "off + n \<le> i \<Longrightarrow> i < length dst \<Longrightarrow> n \<le> length src \<Longrightarrow>
   memcpy dst off src n ! i = dst ! i"
  by (auto simp: memcpy_def nth_append)

lemma memcpy_len:
  "off + n \<le> length dst \<Longrightarrow> n \<le> length src \<Longrightarrow> length (memcpy dst off src n) = length dst"
  by (simp add: memcpy_def)

lemma xor_into_length: "n \<le> length a \<Longrightarrow> length (xor_into n a b) = length a"
  by (simp add: xor_into_def)

lemma xor_into_nth: "i < n \<Longrightarrow> xor_into n a b ! i = a ! i XOR b ! i"
  by (simp add: xor_into_def nth_append)

lemma xor_into_nth_after: "n \<le> i \<Longrightarrow> i < length a \<Longrightarrow> xor_into n a b ! i = a ! i"
  by (simp add: xor_into_def nth_append)

section \<open>Lemmas: the toy digests\<close>

lemma upt_eval: "[i..<j] = (if i < j then i # [i + 1..<j] else [])"
  by (simp add: upt_rec)

lemma toy_digest_length: "length (toy_digest n d) = n"
  by (simp add: toy_digest_def Let_def)

lemma toy_security_1:
  "toy_security 1 = \<lparr>level = 1, n_p = 512, n_q = 160, hashlen = 20, hashfcn = toy_digest 20\<rparr>"
  by (simp add: toy_security_def setup_security_def calloc_security_def toy_openssl_def)

lemma toy_security_1_sized: "digest_sized (toy_security 1)"
  by (simp add: digest_sized_def toy_security_1 toy_digest_length)

section \<open>hash_to_range\<close>

lemma foldl_big_endian:
  "foldl (\<lambda>a b. a * 256 + uint b) acc bs = acc * 256 ^ length bs + big_endian_int bs"
  by (induction bs arbitrary: acc) (simp_all add: algebra_simps)

lemma mpz_import_big_endian: "length h = count \<Longrightarrow> mpz_import count h = big_endian_int h"
  by (simp add: mpz_import_def foldl_big_endian)

lemma hash_to_range_loop_two_rounds:
  "hash_to_range_loop H hlen bytes vmul 0 0 h =
     mpz_import hlen (H (take hlen h @ bytes)) * vmul
       + mpz_import hlen (H (take hlen (H (take hlen h @ bytes)) @ bytes))"
proof -
  have two: "hash_to_range_loop H hlen bytes vmul (Suc (Suc 0)) v h' = v" for v h'
    by (subst hash_to_range_loop.simps) simp
  have one: "hash_to_range_loop H hlen bytes vmul (Suc 0) v h' =
      v * vmul + mpz_import hlen (H (take hlen h' @ bytes))" for v h'
    by (subst hash_to_range_loop.simps) (simp add: Let_def two)
  show ?thesis
    by (subst hash_to_range_loop.simps) (simp add: Let_def one)
qed

lemma hash_to_range_returns: "q \<noteq> 0 \<Longrightarrow> \<exists>l. hash_to_range sec b q = Some l"
  by (simp add: hash_to_range_def Let_def mpz_mod_def)

text \<open>
  C9. For a profile whose digests have \<open>hashlen\<close> bytes and a modulus \<open>q > 0\<close>,
  \<open>hash_to_range\<close> returns the value of exactly two rounds of the accumulator,
  \<open>(a\<^sub>1 * 256^hlen + a\<^sub>2) mod q\<close> with \<open>h\<^sub>1 = H(0^hlen || b)\<close>, \<open>h\<^sub>2 = H(h\<^sub>1 || b)\<close> and
  \<open>a\<^sub>i\<close> the big-endian integer of \<open>h\<^sub>i\<close>, and that value lies between 0 and \<open>q - 1\<close>.
\<close>

theorem hash_to_range_two_rounds:
  assumes "digest_sized sec" and "0 < q"
  shows "hash_to_range sec b q = Some (spec_hash_to_range (hashfcn sec) (hashlen sec) b q)
         \<and> 0 \<le> spec_hash_to_range (hashfcn sec) (hashlen sec) b q
         \<and> spec_hash_to_range (hashfcn sec) (hashlen sec) b q < q"
proof -
  have len: "length (hashfcn sec d) = hashlen sec" for d
    using assms(1) by (simp add: digest_sized_def)
  have "hash_to_range sec b q = Some (spec_hash_to_range (hashfcn sec) (hashlen sec) b q)"
    using assms(2)
    by (simp add: hash_to_range_def spec_hash_to_range_def Let_def hash_to_range_loop_two_rounds
        mpz_import_big_endian len mpz_mod_def)
  moreover have "0 \<le> spec_hash_to_range (hashfcn sec) (hashlen sec) b q"
    using assms(2) by (simp add: spec_hash_to_range_def Let_def)
  moreover have "spec_hash_to_range (hashfcn sec) (hashlen sec) b q < q"
    using assms(2) by (simp add: spec_hash_to_range_def Let_def)
  ultimately show ?thesis by simp
qed

theorem hash_to_range_two_rounds_witness:
  "digest_sized (toy_security 1) \<and> (0::int) < 11
   \<and> hash_to_range (toy_security 1) [1, 2, 3] 11
       = Some (spec_hash_to_range (hashfcn (toy_security 1)) (hashlen (toy_security 1)) [1, 2, 3] 11)
   \<and> 0 \<le> spec_hash_to_range (hashfcn (toy_security 1)) (hashlen (toy_security 1)) [1, 2, 3] 11
   \<and> spec_hash_to_range (hashfcn (toy_security 1)) (hashlen (toy_security 1)) [1, 2, 3] 11 < 11"
proof -
  have q: "(0::int) < 11" by simp
  show ?thesis
    using toy_security_1_sized q
      hash_to_range_two_rounds [OF toy_security_1_sized q, of "[1, 2, 3]"]
    by blast
qed

section \<open>hash_to_bytes\<close>

lemma hash_to_bytes_loop_run:
  "0 < hlen \<Longrightarrow>
   hash_to_bytes_loop H hlen K h result copied remaining =
     Some (hash_to_bytes_run H hlen K h result copied remaining)"
proof (induction H hlen K h result copied remaining rule: hash_to_bytes_run.induct)
  case (1 H hlen K h result copied remaining)
  show ?case
  proof (cases "remaining = 0")
    case True
    then show ?thesis
      by (simp add: hash_to_bytes_loop.simps hash_to_bytes_run.simps)
  next
    case False
    note nz = this
    show ?thesis
    proof (cases "remaining > hlen")
      case True
      with nz 1 show ?thesis
        by (subst hash_to_bytes_loop.simps, subst hash_to_bytes_run.simps) (simp add: Let_def)
    next
      case False
      with nz 1 show ?thesis
        apply (subst hash_to_bytes_loop.simps, subst hash_to_bytes_run.simps)
        apply (simp add: Let_def)
        apply (subst hash_to_bytes_loop.simps)
        apply simp
        done
    qed
  qed
qed

lemma hash_to_bytes_run_eq:
  "0 < hashlen sec \<Longrightarrow>
   hash_to_bytes result sec outlen seed =
     Some (hash_to_bytes_run (hashfcn sec) (hashlen sec) (hashfcn sec seed)
             (replicate (hashlen sec) 0) result 0 outlen)"
  by (simp add: hash_to_bytes_def Let_def hash_to_bytes_loop_run)

lemma toy_digest_eval:
  "toy_digest n d = map (\<lambda>i. sum_list d + 7 * word_of_nat (length d) + 1 + 13 * word_of_nat i) [0..<n]"
  by (simp add: toy_digest_def Let_def)

lemma replicate_eval: "replicate n x = (if n = 0 then [] else x # replicate (n - 1) x)"
  by (cases n) simp_all

lemma hash_to_bytes_run_length:
  "\<forall>d. length (H d) = hlen \<Longrightarrow> copied + remaining \<le> length result \<Longrightarrow>
   length (hash_to_bytes_run H hlen K h result copied remaining) = length result"
proof (induction H hlen K h result copied remaining rule: hash_to_bytes_run.induct)
  case (1 H hlen K h result copied remaining)
  show ?case
  proof (cases "remaining \<noteq> 0 \<and> hlen \<noteq> 0")
    case False
    then show ?thesis by (subst hash_to_bytes_run.simps) auto
  next
    case True
    show ?thesis
    proof (cases "remaining > hlen")
      case True
      have "length (hash_to_bytes_run H hlen K (H (take hlen h))
              (memcpy result copied (H (take hlen (H (take hlen h)) @ take hlen K)) hlen)
              (copied + hlen) (remaining - hlen))
            = length (memcpy result copied (H (take hlen (H (take hlen h)) @ take hlen K)) hlen)"
        using 1 True \<open>remaining \<noteq> 0 \<and> hlen \<noteq> 0\<close>
        by (intro "1.IH") (auto simp: memcpy_len)
      with True \<open>remaining \<noteq> 0 \<and> hlen \<noteq> 0\<close> 1 show ?thesis
        by (subst hash_to_bytes_run.simps) (simp add: Let_def memcpy_len)
    next
      case False
      with \<open>remaining \<noteq> 0 \<and> hlen \<noteq> 0\<close> 1 show ?thesis
        by (subst hash_to_bytes_run.simps) (simp add: Let_def memcpy_len)
    qed
  qed
qed

lemma last_block_offset_small: "n \<le> hlen \<Longrightarrow> last_block_offset hlen n = 0"
  by (cases "n = 0") (simp_all add: last_block_offset_def)

lemma last_block_offset_step:
  assumes "hlen < n" "0 < hlen"
  shows "last_block_offset hlen n = hlen + last_block_offset hlen (n - hlen)"
proof -
  from assms(1) obtain k where k: "n = Suc (hlen + k)"
    by (auto dest: less_imp_Suc_add)
  have "(k + hlen) div hlen = Suc (k div hlen)"
    using assms(2) div_add_self2 [of hlen k] by simp
  then have "(n - 1) div hlen = Suc ((n - hlen - 1) div hlen)"
    by (simp add: k add.commute)
  then show ?thesis by (simp add: last_block_offset_def)
qed

lemma last_block_offset_le: "last_block_offset hlen n \<le> n - 1"
  by (simp add: last_block_offset_def)

lemma hash_to_bytes_run_keeps:
  "\<forall>d. length (H d) = hlen \<Longrightarrow> copied + remaining \<le> length result \<Longrightarrow>
   i < length result \<Longrightarrow> copied + last_block_offset hlen remaining \<le> i \<Longrightarrow>
   remaining - last_block_offset hlen remaining \<le> i \<Longrightarrow>
   hash_to_bytes_run H hlen K h result copied remaining ! i = result ! i"
proof (induction H hlen K h result copied remaining rule: hash_to_bytes_run.induct)
  case (1 H hlen K h result copied remaining)
  show ?case
  proof (cases "remaining \<noteq> 0 \<and> hlen \<noteq> 0")
    case False
    then show ?thesis by (subst hash_to_bytes_run.simps) auto
  next
    case nz: True
    define r where "r = H (take hlen (H (take hlen h)) @ take hlen K)"
    have lr: "length r = hlen" using 1(2) by (simp add: r_def)
    show ?thesis
    proof (cases "remaining > hlen")
      case True
      have st: "last_block_offset hlen remaining = hlen + last_block_offset hlen (remaining - hlen)"
        using True nz by (simp add: last_block_offset_step)
      have "hash_to_bytes_run H hlen K (H (take hlen h)) (memcpy result copied r hlen)
              (copied + hlen) (remaining - hlen) ! i = memcpy result copied r hlen ! i"
        unfolding r_def
        using 1(2-) True nz st lr
        by (intro "1.IH") (auto simp: memcpy_len r_def)
      also have "\<dots> = result ! i"
        using 1(2-) st lr by (intro memcpy_nth_after) auto
      finally show ?thesis
        using True nz by (subst hash_to_bytes_run.simps) (simp add: Let_def r_def)
    next
      case False
      then have "last_block_offset hlen remaining = 0"
        by (simp add: last_block_offset_small)
      then have "memcpy result 0 r remaining ! i = result ! i"
        using 1(2-) False lr by (intro memcpy_nth_after) auto
      then show ?thesis
        using False nz by (subst hash_to_bytes_run.simps) (simp add: Let_def r_def)
    qed
  qed
qed

lemma hash_to_bytes_run_done:
  "remaining = 0 \<or> hlen = 0 \<Longrightarrow> hash_to_bytes_run H hlen K h result copied remaining = result"
  by (subst hash_to_bytes_run.simps) auto

lemma hash_to_bytes_run_written:
  assumes H: "\<forall>d. length (H d) = hlen" and hpos: "0 < hlen"
  shows "copied + remaining \<le> length r1 \<Longrightarrow> copied + remaining \<le> length r2 \<Longrightarrow>
   (\<forall>j<copied. r1 ! j = r2 ! j) \<Longrightarrow>
   i < copied + last_block_offset hlen remaining \<or> i < remaining - last_block_offset hlen remaining \<Longrightarrow>
   hash_to_bytes_run H hlen K h r1 copied remaining ! i =
   hash_to_bytes_run H hlen K h r2 copied remaining ! i"
proof (induction remaining arbitrary: h r1 r2 copied rule: less_induct)
  case (less remaining)
  note len1 = less.prems(1) and len2 = less.prems(2) and low = less.prems(3)
    and i = less.prems(4)
  show ?case
  proof (cases "remaining \<noteq> 0 \<and> hlen \<noteq> 0")
    case False
    then have e: "hash_to_bytes_run H hlen K h r1 copied remaining = r1"
                 "hash_to_bytes_run H hlen K h r2 copied remaining = r2"
      by (simp_all add: hash_to_bytes_run_done)
    from False hpos have "remaining = 0" by simp
    with i have "i < copied" by (simp add: last_block_offset_def)
    then have "r1 ! i = r2 ! i" using low by blast
    then show ?thesis by (simp only: e)
  next
    case nz: True
    define r where "r = H (take hlen (H (take hlen h)) @ take hlen K)"
    have lr: "length r = hlen" using H by (simp add: r_def)
    show ?thesis
    proof (cases "remaining > hlen")
      case True
      have st: "last_block_offset hlen remaining = hlen + last_block_offset hlen (remaining - hlen)"
        using True nz by (simp add: last_block_offset_step)
      let ?m1 = "memcpy r1 copied r hlen" and ?m2 = "memcpy r2 copied r hlen"
      have c1: "copied \<le> length r1" "copied \<le> length r2" using len1 len2 by simp_all
      have pre: "\<forall>j<copied + hlen. ?m1 ! j = ?m2 ! j"
      proof (intro allI impI)
        fix j assume j: "j < copied + hlen"
        show "?m1 ! j = ?m2 ! j"
        proof (cases "j < copied")
          case True
          then have "r1 ! j = r2 ! j" using low by blast
          then show ?thesis using True c1 by (simp add: memcpy_nth_before)
        next
          case False
          then show ?thesis using c1 j lr by (simp add: memcpy_nth_in)
        qed
      qed
      have "hash_to_bytes_run H hlen K (H (take hlen h)) ?m1 (copied + hlen) (remaining - hlen) ! i
          = hash_to_bytes_run H hlen K (H (take hlen h)) ?m2 (copied + hlen) (remaining - hlen) ! i"
      proof (rule less.IH)
        show "remaining - hlen < remaining" using True nz by simp
        show "copied + hlen + (remaining - hlen) \<le> length ?m1"
          using len1 True lr by (simp add: memcpy_len)
        show "copied + hlen + (remaining - hlen) \<le> length ?m2"
          using len2 True lr by (simp add: memcpy_len)
        show "\<forall>j<copied + hlen. ?m1 ! j = ?m2 ! j" by (rule pre)
        show "i < copied + hlen + last_block_offset hlen (remaining - hlen)
            \<or> i < remaining - hlen - last_block_offset hlen (remaining - hlen)"
          using i st by auto
      qed
      moreover have "hash_to_bytes_run H hlen K h r1 copied remaining
          = hash_to_bytes_run H hlen K (H (take hlen h)) ?m1 (copied + hlen) (remaining - hlen)"
        using True nz by (subst hash_to_bytes_run.simps) (simp add: Let_def r_def)
      moreover have "hash_to_bytes_run H hlen K h r2 copied remaining
          = hash_to_bytes_run H hlen K (H (take hlen h)) ?m2 (copied + hlen) (remaining - hlen)"
        using True nz by (subst hash_to_bytes_run.simps) (simp add: Let_def r_def)
      ultimately show ?thesis by simp
    next
      case False
      then have z: "last_block_offset hlen remaining = 0"
        by (simp add: last_block_offset_small)
      have "memcpy r1 0 r remaining ! i = memcpy r2 0 r remaining ! i"
      proof (cases "i < remaining")
        case True
        then show ?thesis using lr False by (simp add: memcpy_nth_in)
      next
        case ge: False
        with i z have ic: "i < copied" by simp
        have il: "i < length r1" "i < length r2" using ic len1 len2 by simp_all
        have "memcpy r1 0 r remaining ! i = r1 ! i"
          using ge il lr False by (intro memcpy_nth_after) simp_all
        moreover have "memcpy r2 0 r remaining ! i = r2 ! i"
          using ge il lr False by (intro memcpy_nth_after) simp_all
        moreover have "r1 ! i = r2 ! i" using ic low by blast
        ultimately show ?thesis by simp
      qed
      moreover have "hash_to_bytes_run H hlen K h r1 copied remaining = memcpy r1 0 r remaining"
        using False nz by (subst hash_to_bytes_run.simps) (simp add: Let_def r_def)
      moreover have "hash_to_bytes_run H hlen K h r2 copied remaining = memcpy r2 0 r remaining"
        using False nz by (subst hash_to_bytes_run.simps) (simp add: Let_def r_def)
      ultimately show ?thesis by simp
    qed
  qed
qed


section \<open>hash_to_bytes and the HashBytes construction\<close>

lemma toy_K_123: "toy_digest 20 [1, 2, 3] =
   [28, 41, 54, 67, 80, 93, 106, 119, 132, 145, 158, 171, 184, 197, 210, 223, 236, 249, 6, 19]"
  by (simp add: toy_digest_eval upt_eval)

text \<open>
  C2. At level 1 (\<open>hlen = 20\<close>) and \<open>outlen = 21\<close> the code and the HashBytes
  construction differ: the code writes the one byte of the second block over byte 0 of the
  output and leaves byte 20 as the buffer had it, where the construction appends it at
  offset 20.
\<close>

theorem hash_to_bytes_last_block_misplaced:
  "hash_to_bytes (replicate 21 0) (toy_security 1) 21 [1, 2, 3] =
     Some [225, 166, 179, 192, 205, 218, 231, 244, 1, 14, 27, 40, 53, 66, 79, 92, 105, 118,
           131, 144, 0]
   \<and> spec_hash_to_bytes (hashfcn (toy_security 1)) (hashlen (toy_security 1)) [1, 2, 3] 21 =
     [153, 166, 179, 192, 205, 218, 231, 244, 1, 14, 27, 40, 53, 66, 79, 92, 105, 118,
      131, 144, 225]"
proof -
  have code: "hash_to_bytes (replicate 21 0) (toy_security 1) 21 [1, 2, 3] =
     Some [225, 166, 179, 192, 205, 218, 231, 244, 1, 14, 27, 40, 53, 66, 79, 92, 105, 118,
           131, 144, 0]"
    apply (simp add: hash_to_bytes_run_eq toy_security_1 toy_K_123)
    apply (subst hash_to_bytes_run.simps)
    apply (simp add: Let_def)
    apply (subst hash_to_bytes_run.simps)
    apply (simp add: Let_def memcpy_def toy_digest_eval upt_eval replicate_eval)
    done
  have spec: "spec_hash_to_bytes (hashfcn (toy_security 1)) (hashlen (toy_security 1)) [1, 2, 3] 21 =
     [153, 166, 179, 192, 205, 218, 231, 244, 1, 14, 27, 40, 53, 66, 79, 92, 105, 118,
      131, 144, 225]"
    apply (simp add: spec_hash_to_bytes_def toy_security_1 toy_K_123)
    apply (subst spec_hash_to_bytes_rounds.simps)
    apply (simp add: Let_def)
    apply (subst spec_hash_to_bytes_rounds.simps)
    apply (simp add: Let_def)
    apply (subst spec_hash_to_bytes_rounds.simps)
    apply (simp add: Let_def toy_digest_eval upt_eval replicate_eval)
    done
  from code spec show ?thesis by (rule conjI)
qed

text \<open>Where the output fits one block the code is the construction.\<close>

lemma hash_to_bytes_one_block:
  assumes "digest_sized sec" and "0 < outlen" and "outlen \<le> hashlen sec"
  shows "hash_to_bytes (replicate outlen 0) sec outlen seed =
         Some (spec_hash_to_bytes (hashfcn sec) (hashlen sec) seed outlen)"
proof -
  have len: "length (hashfcn sec d) = hashlen sec" for d
    using assms(1) by (simp add: digest_sized_def)
  have pos: "0 < hashlen sec" using assms by simp
  have "spec_hash_to_bytes_rounds (hashfcn sec) (hashlen sec) K h 0 = []" for K h
    by (subst spec_hash_to_bytes_rounds.simps) simp
  then have spec: "spec_hash_to_bytes (hashfcn sec) (hashlen sec) seed outlen =
      take outlen (hashfcn sec (hashfcn sec (replicate (hashlen sec) 0) @ hashfcn sec seed))"
    using assms pos
    by (simp add: spec_hash_to_bytes_def, subst spec_hash_to_bytes_rounds.simps)
       (simp add: Let_def min_def)
  show ?thesis
    using assms pos
    by (simp add: hash_to_bytes_run_eq spec, subst hash_to_bytes_run.simps)
       (simp add: Let_def memcpy_def len)
qed


section \<open>Encryption and decryption\<close>

lemma last_block_offset_ge:
  assumes "hlen < n" "0 < hlen"
  shows "hlen \<le> last_block_offset hlen n" "n - last_block_offset hlen n \<le> hlen"
proof -
  have 1: "last_block_offset hlen n = hlen + last_block_offset hlen (n - hlen)"
    using assms by (rule last_block_offset_step)
  then show "hlen \<le> last_block_offset hlen n" by simp
  have "n - 1 < Suc ((n - 1) div hlen) * hlen"
    using assms(2) by (metis dividend_less_div_times mult.commute mult_Suc add.commute)
  then show "n - last_block_offset hlen n \<le> hlen"
    by (simp add: last_block_offset_def)
qed

lemma hash_to_bytes_keeps:
  assumes "digest_sized sec" "0 < hashlen sec" "outlen \<le> length result"
    and "in_last_block (hashlen sec) outlen i"
  shows "\<exists>res. hash_to_bytes result sec outlen seed = Some res \<and> res ! i = result ! i
           \<and> length res = length result"
proof -
  let ?run = "hash_to_bytes_run (hashfcn sec) (hashlen sec) (hashfcn sec seed)
             (replicate (hashlen sec) 0) result 0 outlen"
  have len: "\<forall>d. length (hashfcn sec d) = hashlen sec"
    using assms(1) by (simp add: digest_sized_def)
  have i: "hashlen sec < outlen" "last_block_offset (hashlen sec) outlen \<le> i" "i < outlen"
    using assms(4) by (simp_all add: in_last_block_def)
  have "outlen - last_block_offset (hashlen sec) outlen \<le> i"
    using last_block_offset_ge [OF i(1) assms(2)] i(2) by simp
  then have "?run ! i = result ! i"
    using len assms(3) i by (intro hash_to_bytes_run_keeps) simp_all
  moreover have "length ?run = length result"
    using len assms(3) by (intro hash_to_bytes_run_length) simp_all
  ultimately show ?thesis
    using assms(2) by (simp add: hash_to_bytes_run_eq)
qed

lemma hash_to_bytes_written:
  assumes "digest_sized sec" "0 < hashlen sec" "outlen \<le> length r1" "outlen \<le> length r2"
    and "i < outlen" and "\<not> in_last_block (hashlen sec) outlen i"
  shows "\<exists>res1 res2. hash_to_bytes r1 sec outlen seed = Some res1
           \<and> hash_to_bytes r2 sec outlen seed = Some res2 \<and> res1 ! i = res2 ! i"
proof -
  let ?run = "\<lambda>r. hash_to_bytes_run (hashfcn sec) (hashlen sec) (hashfcn sec seed)
             (replicate (hashlen sec) 0) r 0 outlen"
  have len: "\<forall>d. length (hashfcn sec d) = hashlen sec"
    using assms(1) by (simp add: digest_sized_def)
  have w: "i < 0 + last_block_offset (hashlen sec) outlen
         \<or> i < outlen - last_block_offset (hashlen sec) outlen"
  proof (cases "hashlen sec < outlen")
    case True
    then show ?thesis using assms(5,6) by (simp add: in_last_block_def)
  next
    case False
    then show ?thesis using assms(5) by (simp add: last_block_offset_small)
  qed
  have "?run r1 ! i = ?run r2 ! i"
    by (rule hash_to_bytes_run_written [OF len assms(2)]) (use assms(3,4) w in simp_all)
  then show ?thesis
    using assms(2) by (simp add: hash_to_bytes_run_eq)
qed

lemma xor_into_cancel:
  assumes "length a = n" "length b = n"
  shows "xor_into n a (xor_into n a b) = b"
proof (rule nth_equalityI)
  show "length (xor_into n a (xor_into n a b)) = length b"
    using assms by (simp add: xor_into_def)
next
  fix i assume "i < length (xor_into n a (xor_into n a b))"
  then have i: "i < n" using assms by (simp add: xor_into_def)
  have "a ! i XOR (a ! i XOR b ! i) = b ! i"
    by (simp add: xor.assoc [symmetric])
  then show "xor_into n a (xor_into n a b) ! i = b ! i"
    using i by (simp add: xor_into_nth)
qed

lemma pairing_agree:
  assumes "bilinear pr"
  shows "element_pairing pr (element_mul_mpz_G1 pr a l) (element_mul_mpz_G2 pr b s)
       = element_pow_mpz_GT pr (pairing_pp_apply pr b (element_mul_mpz_G1 pr a s)) l"
proof -
  have 1: "element_pairing pr (element_mul_mpz_G1 pr x k) y
        = element_pow_mpz_GT pr (element_pairing pr x y) k" for x y k
    using assms by (simp add: bilinear_def)
  have 2: "element_pairing pr x (element_mul_mpz_G2 pr y k)
        = element_pow_mpz_GT pr (element_pairing pr x y) k" for x y k
    using assms by (simp add: bilinear_def)
  have "element_pairing pr (element_mul_mpz_G1 pr a l) (element_mul_mpz_G2 pr b s)
      = element_pow_mpz_GT pr (element_pairing pr a (element_mul_mpz_G2 pr b s)) l"
    by (rule 1)
  also have "\<dots> = element_pow_mpz_GT pr (element_pow_mpz_GT pr (element_pairing pr a b) s) l"
    by (simp only: 2)
  also have "\<dots> = element_pow_mpz_GT pr (element_pairing pr (element_mul_mpz_G1 pr a s) b) l"
    by (simp only: 1)
  finally show ?thesis by (simp only: pairing_pp_apply_def)
qed

lemma bf_encrypt_steps:
  assumes "hash_to_range (security params) (take (hashlen (security params)) rho
              @ take (hashlen (security params)) (hashfcn (security params) m)) (q_ord params) = Some l"
    and "hash_to_bytes (replicate (length m) 0) (security params) (length m)
              (take (hashlen (security params)) rho) = Some W0"
  shows "bf_encrypt params public_key m (Some rho) =
     Some (Some \<lparr>msg_length = length m,
                 msg_U = element_mul_mpz_G1 (pairing params) (P_base params) l,
                 msg_V = xor_into (hashlen (security params))
                   (hashfcn (security params) (element_to_bytes_GT (pairing params)
                      (element_pow_mpz_GT (pairing params)
                         (pairing_pp_apply (pairing params) public_key (P_pub_precomp params)) l)))
                   rho,
                 msg_W = xor_into (length m) W0 m\<rparr>)"
  using assms by (simp add: bf_encrypt_def Let_def)

lemma bf_decrypt_steps:
  assumes "w = xor_into (hashlen (security params))
                 (hashfcn (security params) (element_to_bytes_GT (pairing params)
                    (element_pairing (pairing params) (msg_U message) private_key)))
                 (msg_V message)"
    and "hash_to_bytes output (security params) (msg_length message)
              (take (hashlen (security params)) w) = Some pre"
    and "plain = xor_into (msg_length message) pre (msg_W message)"
    and "hash_to_range (security params) (take (hashlen (security params)) w
              @ take (hashlen (security params))
                  (hashfcn (security params) (take (msg_length message) plain)))
              (q_ord params) = Some l"
  shows "bf_decrypt output params private_key message =
     Some (if msg_U message \<noteq> element_mul_mpz_G1 (pairing params) (P_base params) l
           then (False, memset0 plain (msg_length message)) else (True, plain))"
  using assms by (simp add: bf_decrypt_def Let_def)

lemma roundtrip_core:
  fixes params :: "('par, 'g1, 'g2, 'gt) BFPublicParameters"
  assumes inv: "setup_invariant params s"
    and rho: "length rho = hashlen (security params)"
    and room: "length m \<le> length output"
  shows "\<exists>c plain l.
     bf_encrypt params (bf_generate_public_key params identifier) m (Some rho) = Some (Some c)
     \<and> msg_length c = length m
     \<and> (\<forall>i. in_last_block (hashlen (security params)) (length m) i \<longrightarrow> msg_W c ! i = m ! i)
     \<and> length plain = length output
     \<and> (\<forall>i<length m. plain ! i
            = (if in_last_block (hashlen (security params)) (length m) i
               then output ! i XOR m ! i else m ! i))
     \<and> hash_to_range (security params) (rho @ hashfcn (security params) m) (q_ord params) = Some l
     \<and> (\<forall>l'. hash_to_range (security params)
                  (rho @ hashfcn (security params) (take (length m) plain)) (q_ord params) = Some l' \<longrightarrow>
           bf_decrypt output params (bf_generate_private_key params s identifier) c
             = Some (if element_mul_mpz_G1 (pairing params) (P_base params) l
                          \<noteq> element_mul_mpz_G1 (pairing params) (P_base params) l'
                     then (False, memset0 plain (length m))
                     else (True, plain)))"
proof -
  let ?n = "length m"
  let ?sec = "security params"
  let ?hlen = "hashlen (security params)"
  let ?H = "hashfcn (security params)"
  let ?mulP = "element_mul_mpz_G1 (pairing params) (P_base params)"
  let ?pr = "pairing params"
  let ?pk = "bf_generate_public_key params identifier"
  let ?sk = "bf_generate_private_key params s identifier"
  have sized: "digest_sized ?sec" and hpos: "0 < ?hlen" and qpos: "0 < q_ord params"
    and bil: "bilinear ?pr"
    and pub: "P_pub_precomp params = element_mul_mpz_G1 ?pr (P_base params) s"
    using inv by (simp_all add: setup_invariant_def)
  have hl: "length (?H d) = ?hlen" for d
    using sized by (simp add: digest_sized_def)
  have trho: "take ?hlen rho = rho" using rho by simp
  have tH: "take ?hlen (?H d) = ?H d" for d using hl by simp
  obtain l where l: "hash_to_range ?sec (rho @ ?H m) (q_ord params) = Some l"
    using hash_to_range_returns [of "q_ord params" ?sec "rho @ ?H m"] qpos by auto
  define zeros where "zeros = replicate ?n (0::u8)"
  define theta where "theta = element_pow_mpz_GT ?pr (pairing_pp_apply ?pr ?pk (P_pub_precomp params)) l"
  define hz where "hz = ?H (element_to_bytes_GT ?pr theta)"
  \<comment> \<open>the mask that encryption computes, and the ciphertext\<close>
  obtain W0 where W0: "hash_to_bytes zeros ?sec ?n rho = Some W0"
    using hpos by (auto simp: hash_to_bytes_run_eq)
  define c where "c = \<lparr>msg_length = ?n, msg_U = ?mulP l, msg_V = xor_into ?hlen hz rho,
                        msg_W = xor_into ?n W0 m\<rparr>"
  have enc: "bf_encrypt params ?pk m (Some rho) = Some (Some c)"
    using l W0 bf_encrypt_steps [of params rho m l W0 ?pk]
    by (simp add: trho tH c_def hz_def theta_def zeros_def
          )
  have W0_tail: "W0 ! i = 0" if ilb: "in_last_block ?hlen ?n i" for i
  proof -
    from ilb have "i < ?n" by (simp add: in_last_block_def)
    moreover obtain res where "hash_to_bytes zeros ?sec ?n rho = Some res" "res ! i = zeros ! i"
      using hash_to_bytes_keeps [of ?sec ?n zeros i rho] sized hpos ilb
      by (auto simp: zeros_def)
    ultimately show ?thesis using W0 by (simp add: zeros_def)
  qed
  have tail: "\<forall>i. in_last_block ?hlen ?n i \<longrightarrow> msg_W c ! i = m ! i"
  proof (intro allI impI)
    fix i assume i: "in_last_block ?hlen ?n i"
    then have "i < ?n" by (simp add: in_last_block_def)
    then show "msg_W c ! i = m ! i"
      using W0_tail [OF i] by (simp add: c_def xor_into_nth)
  qed
  \<comment> \<open>decryption recovers \<open>rho\<close>\<close>
  have "element_pairing ?pr (msg_U c) ?sk = theta"
    using pairing_agree [OF bil, of "P_base params" l "hash_to_point params identifier" s]
    by (simp add: c_def theta_def bf_generate_private_key_def
          bf_generate_public_key_def pub)
  then have w: "xor_into ?hlen (?H (element_to_bytes_GT ?pr (element_pairing ?pr (msg_U c) ?sk)))
                  (msg_V c) = rho"
    using xor_into_cancel [of hz ?hlen rho] hl rho by (simp add: c_def hz_def)
  \<comment> \<open>the mask that decryption computes\<close>
  obtain pre where pre: "hash_to_bytes output ?sec ?n rho = Some pre"
    using hpos by (auto simp: hash_to_bytes_run_eq)
  have pre_len: "length pre = length output"
  proof -
    have "\<forall>d. length (?H d) = ?hlen" using hl by simp
    then have "length (hash_to_bytes_run ?H ?hlen (?H rho) (replicate ?hlen 0) output 0 ?n)
          = length output"
      using room by (intro hash_to_bytes_run_length) simp_all
    then show ?thesis
      using pre hpos by (simp add: hash_to_bytes_run_eq)
  qed
  define plain where "plain = xor_into ?n pre (msg_W c)"
  have plain_len: "length plain = length output"
    using pre_len room by (simp add: plain_def xor_into_length)
  have plain_nth: "\<forall>i<?n. plain ! i
         = (if in_last_block ?hlen ?n i then output ! i XOR m ! i else m ! i)"
  proof (intro allI impI)
    fix i assume i: "i < ?n"
    have p: "plain ! i = pre ! i XOR (W0 ! i XOR m ! i)"
      using i by (simp add: plain_def c_def xor_into_nth)
    show "plain ! i = (if in_last_block ?hlen ?n i then output ! i XOR m ! i else m ! i)"
    proof (cases "in_last_block ?hlen ?n i")
      case True
      obtain res where "hash_to_bytes output ?sec ?n rho = Some res" "res ! i = output ! i"
        using hash_to_bytes_keeps [of ?sec ?n "output" i rho] sized hpos room True
        by auto
      then have "pre ! i = output ! i" using pre by simp
      then show ?thesis using p True W0_tail [OF True] by simp
    next
      case False
      obtain res1 res2 where "hash_to_bytes zeros ?sec ?n rho = Some res1"
          "hash_to_bytes output ?sec ?n rho = Some res2" "res1 ! i = res2 ! i"
        using hash_to_bytes_written [of ?sec ?n zeros "output" i rho] sized hpos room i False
        by (auto simp: zeros_def)
      then have "W0 ! i = pre ! i" using W0 pre by simp
      then show ?thesis using p False by (simp add: xor.assoc [symmetric])
    qed
  qed
  have dec: "\<forall>l'. hash_to_range ?sec (rho @ ?H (take ?n plain)) (q_ord params) = Some l' \<longrightarrow>
           bf_decrypt output params ?sk c
             = Some (if ?mulP l \<noteq> ?mulP l' then (False, memset0 plain ?n) else (True, plain))"
  proof (intro allI impI)
    fix l' assume l': "hash_to_range ?sec (rho @ ?H (take ?n plain)) (q_ord params) = Some l'"
    have "bf_decrypt output params ?sk c =
        Some (if msg_U c \<noteq> element_mul_mpz_G1 ?pr (P_base params) l'
              then (False, memset0 plain (msg_length c)) else (True, plain))"
    proof (rule bf_decrypt_steps [where w = rho and pre = pre])
      show "rho = xor_into (hashlen (security params))
                 (hashfcn (security params) (element_to_bytes_GT ?pr
                    (element_pairing ?pr (msg_U c) ?sk))) (msg_V c)"
        using w by simp
      show "hash_to_bytes output (security params) (msg_length c)
              (take (hashlen (security params)) rho) = Some pre"
        using pre trho by (simp add: c_def)
      show "plain = xor_into (msg_length c) pre (msg_W c)"
        by (simp add: plain_def c_def)
      show "hash_to_range (security params) (take (hashlen (security params)) rho
              @ take (hashlen (security params))
                  (hashfcn (security params) (take (msg_length c) plain)))
              (q_ord params) = Some l'"
        using l' trho tH by (simp add: c_def)
    qed
    then show "bf_decrypt output params ?sk c
             = Some (if ?mulP l \<noteq> ?mulP l' then (False, memset0 plain ?n) else (True, plain))"
      by (simp add: c_def)
  qed
  have "msg_length c = ?n" by (simp add: c_def)
  with enc tail plain_len plain_nth l dec show ?thesis by blast
qed

lemma roundtrip_zeroed:
  fixes params :: "('par, 'g1, 'g2, 'gt) BFPublicParameters"
  assumes inv: "setup_invariant params s"
    and rho: "length rho = hashlen (security params)"
    and room: "length m \<le> length output"
    and zero: "\<forall>i. in_last_block (hashlen (security params)) (length m) i \<longrightarrow> output ! i = 0"
  shows "\<exists>out. encrypt_then_decrypt output params s identifier m (Some rho) = Some (True, out)
           \<and> take (length m) out = m"
proof -
  obtain c plain l where
      enc: "bf_encrypt params (bf_generate_public_key params identifier) m (Some rho) = Some (Some c)"
    and len: "length plain = length output"
    and nth: "\<forall>i<length m. plain ! i
            = (if in_last_block (hashlen (security params)) (length m) i
               then output ! i XOR m ! i else m ! i)"
    and l: "hash_to_range (security params) (rho @ hashfcn (security params) m) (q_ord params) = Some l"
    and dec: "\<forall>l'. hash_to_range (security params)
                  (rho @ hashfcn (security params) (take (length m) plain)) (q_ord params) = Some l' \<longrightarrow>
           bf_decrypt output params (bf_generate_private_key params s identifier) c
             = Some (if element_mul_mpz_G1 (pairing params) (P_base params) l
                          \<noteq> element_mul_mpz_G1 (pairing params) (P_base params) l'
                     then (False, memset0 plain (length m))
                     else (True, plain))"
    using roundtrip_core [OF inv rho room, of "identifier"] by blast
  have "take (length m) plain = m"
  proof (rule nth_equalityI)
    show "length (take (length m) plain) = length m" using len room by simp
  next
    fix i assume "i < length (take (length m) plain)"
    then have i: "i < length m" by simp
    then have "plain ! i = m ! i" using nth zero by auto
    then show "take (length m) plain ! i = m ! i" using i by simp
  qed
  then have "bf_decrypt output params (bf_generate_private_key params s identifier) c
      = Some (True, plain)" "take (length m) plain = m"
    using dec l by simp_all
  then show ?thesis using enc by (simp add: encrypt_then_decrypt_def)
qed

lemma roundtrip_stale:
  fixes params :: "('par, 'g1, 'g2, 'gt) BFPublicParameters"
  assumes inv: "setup_invariant params s"
    and rho: "length rho = hashlen (security params)"
    and room: "length m \<le> length output"
    and last: "in_last_block (hashlen (security params)) (length m) i"
    and stale: "output ! i \<noteq> 0"
  shows "\<exists>ok out. encrypt_then_decrypt output params s identifier m (Some rho) = Some (ok, out)
           \<and> \<not> (ok \<and> take (length m) out = m)"
proof -
  obtain c plain l where
      enc: "bf_encrypt params (bf_generate_public_key params identifier) m (Some rho) = Some (Some c)"
    and len: "length plain = length output"
    and nth: "\<forall>i<length m. plain ! i
            = (if in_last_block (hashlen (security params)) (length m) i
               then output ! i XOR m ! i else m ! i)"
    and dec: "\<forall>l'. hash_to_range (security params)
                  (rho @ hashfcn (security params) (take (length m) plain)) (q_ord params) = Some l' \<longrightarrow>
           bf_decrypt output params (bf_generate_private_key params s identifier) c
             = Some (if element_mul_mpz_G1 (pairing params) (P_base params) l
                          \<noteq> element_mul_mpz_G1 (pairing params) (P_base params) l'
                     then (False, memset0 plain (length m))
                     else (True, plain))"
    using roundtrip_core [OF inv rho room, of "identifier"] by blast
  have i: "i < length m" using last by (simp add: in_last_block_def)
  then have "plain ! i = output ! i XOR m ! i" using nth last by simp
  moreover have "output ! i XOR m ! i \<noteq> m ! i"
  proof
    assume "output ! i XOR m ! i = m ! i"
    then have "(output ! i XOR m ! i) XOR m ! i = m ! i XOR m ! i" by simp
    then have "output ! i = 0" by (simp add: xor.assoc)
    with stale show False by simp
  qed
  ultimately have "take (length m) plain ! i \<noteq> m ! i" using i by simp
  then have ne: "take (length m) plain \<noteq> m" by auto
  have "0 < q_ord params" using inv by (simp add: setup_invariant_def)
  then obtain l' where "hash_to_range (security params)
       (rho @ hashfcn (security params) (take (length m) plain)) (q_ord params) = Some l'"
    using hash_to_range_returns [of "q_ord params" "security params"
        "rho @ hashfcn (security params) (take (length m) plain)"] by auto
  then have "bf_decrypt output params (bf_generate_private_key params s identifier) c
             = Some (if element_mul_mpz_G1 (pairing params) (P_base params) l
                          \<noteq> element_mul_mpz_G1 (pairing params) (P_base params) l'
                     then (False, memset0 plain (length m))
                     else (True, plain))"
    using dec by blast
  then show ?thesis using enc ne by (auto simp: encrypt_then_decrypt_def)
qed

section \<open>The small instance\<close>

lemma toy_dlog_table: "\<forall>n\<in>set [0..<11]. toy_dlog (toy_points ! n) = int n"
  by code_simp

lemma toy_dlog_point: "toy_dlog (toy_point k) = k mod 11"
proof -
  have "nat (k mod 11) \<in> set [0..<11]" by simp
  then have "toy_dlog (toy_points ! nat (k mod 11)) = int (nat (k mod 11))"
    using toy_dlog_table by blast
  then show ?thesis by (simp add: toy_point_def)
qed

lemma mod11_left: "(x * k mod 11) * y mod 11 = (x * y mod 11) * k mod (11::int)"
proof -
  have "(x * k mod 11) * y mod 11 = (x * k * y) mod 11" by (rule mod_mult_left_eq)
  moreover have "(x * y mod 11) * k mod 11 = (x * y * k) mod 11" by (rule mod_mult_left_eq)
  moreover have "x * k * y = x * y * k" by (simp add: ac_simps)
  ultimately show ?thesis by simp
qed

lemma mod11_right: "x * (y * k mod 11) mod 11 = (x * y mod 11) * k mod (11::int)"
proof -
  have "x * (y * k mod 11) mod 11 = (x * (y * k)) mod 11" by (rule mod_mult_right_eq)
  moreover have "(x * y mod 11) * k mod 11 = (x * y * k) mod 11" by (rule mod_mult_left_eq)
  moreover have "x * (y * k) = x * y * k" by (simp add: ac_simps)
  ultimately show ?thesis by simp
qed

lemma toy_bilinear: "bilinear toy_pairing"
  unfolding bilinear_def
  by (simp only: toy_pairing_def pairing_t.simps toy_dlog_point mod11_left mod11_right) simp

lemma toy_mul_7: "toy_point (toy_dlog (Point 31 18) * 7) = Point 13 24"
  by code_simp

lemma toy_params_1:
  "toy_params 1 = \<lparr>security = toy_security 1, pbc_par = ''type a'', pairing = toy_pairing,
      P_base = Point 31 18, P_pub = Point 13 24, P_pub_precomp = Point 13 24, q_ord = 11\<rparr>"
  by (simp add: toy_params_def bf_generate_shard_def Let_def toy_pairing_def toy_mul_7)

lemma toy_setup_invariant: "setup_invariant (toy_params 1) 7"
  by (simp add: setup_invariant_def toy_params_1 toy_security_1_sized toy_bilinear)
     (simp add: toy_security_1 toy_pairing_def toy_mul_7)

section \<open>The round trip\<close>

lemma toy_last_block: "in_last_block 20 25 24"
  by (simp add: in_last_block_def last_block_offset_def)

lemma toy_lengths: "length toy_rho = 20" "length toy_m = 25"
  by (simp_all add: toy_rho_def toy_m_def)

lemma toy_hashlen: "hashlen (security (toy_params 1)) = 20"
  by (simp add: toy_params_1 toy_security_1)

text \<open>
  C1. The round trip does not hold for every call of \<open>bf_decrypt\<close>. When the plaintext is
  longer than one digest and the caller's buffer holds a byte other than zero at a position
  of the last block, encryption followed by decryption returns, and it does not return
  success with the plaintext: \<open>hash_to_bytes\<close> never writes that position, so the byte is
  mixed into the recovered plaintext.
\<close>

theorem roundtrip_fails_on_stale_buffer:
  fixes params :: "('par, 'g1, 'g2, 'gt) BFPublicParameters"
  assumes "setup_invariant params s"
    and "length rho = hashlen (security params)"
    and "length m \<le> length output"
    and "in_last_block (hashlen (security params)) (length m) i"
    and "output ! i \<noteq> 0"
  shows "\<exists>ok out. encrypt_then_decrypt output params s identifier m (Some rho) = Some (ok, out)
           \<and> \<not> (ok \<and> take (length m) out = m)"
  using assms by (rule roundtrip_stale)

theorem roundtrip_fails_on_stale_buffer_witness:
  "setup_invariant (toy_params 1) 7
   \<and> length toy_rho = hashlen (security (toy_params 1))
   \<and> length toy_m \<le> length (replicate 24 0 @ [255 :: u8])
   \<and> in_last_block (hashlen (security (toy_params 1))) (length toy_m) 24
   \<and> (replicate 24 0 @ [255 :: u8]) ! 24 \<noteq> 0
   \<and> (\<exists>ok out. encrypt_then_decrypt (replicate 24 0 @ [255]) (toy_params 1) 7 alice toy_m
                    (Some toy_rho) = Some (ok, out)
          \<and> \<not> (ok \<and> take (length toy_m) out = toy_m))"
proof -
  have 1: "length toy_rho = hashlen (security (toy_params 1))"
    by (simp add: toy_lengths toy_hashlen)
  have 2: "length toy_m \<le> length (replicate 24 0 @ [255 :: u8])"
    by (simp add: toy_lengths)
  have 3: "in_last_block (hashlen (security (toy_params 1))) (length toy_m) 24"
    by (simp add: toy_lengths toy_hashlen toy_last_block)
  have 4: "(replicate 24 0 @ [255 :: u8]) ! 24 \<noteq> 0"
    by (simp add: nth_append)
  show ?thesis
    using toy_setup_invariant 1 2 3 4
      roundtrip_fails_on_stale_buffer [OF toy_setup_invariant 1 2 3 4, of alice]
    by blast
qed

text \<open>
  What the misplaced block does to a ciphertext. For a plaintext longer than one digest
  the ciphertext holds the plaintext unmasked from \<open>t * hlen\<close> on,
  \<open>t = ceil(|m| / hlen) - 1\<close>, and \<open>bf_decrypt\<close> leaves the same positions of its output
  buffer unmasked: only a buffer that holds zeroes there gives the plaintext back.
\<close>

lemma plaintext_tail_in_clear:
  fixes params :: "('par, 'g1, 'g2, 'gt) BFPublicParameters"
  assumes inv: "setup_invariant params s"
    and rho: "length rho = hashlen (security params)"
    and long: "hashlen (security params) < length m"
  shows "\<exists>c. bf_encrypt params (bf_generate_public_key params identifier) m (Some rho) = Some (Some c)
     \<and> (\<forall>i. last_block_offset (hashlen (security params)) (length m) \<le> i \<and> i < length m
            \<longrightarrow> msg_W c ! i = m ! i)
     \<and> (\<forall>output. length m \<le> length output
            \<and> (\<forall>i. last_block_offset (hashlen (security params)) (length m) \<le> i \<and> i < length m
                   \<longrightarrow> output ! i = 0)
          \<longrightarrow> (\<exists>out. bf_decrypt output params (bf_generate_private_key params s identifier) c
                        = Some (True, out)
                    \<and> take (length m) out = m))"
proof -
  have room0: "length m \<le> length (replicate (length m) (0::u8))" by simp
  obtain c where
      enc: "bf_encrypt params (bf_generate_public_key params identifier) m (Some rho) = Some (Some c)"
    and tail: "\<forall>i. in_last_block (hashlen (security params)) (length m) i \<longrightarrow> msg_W c ! i = m ! i"
    using roundtrip_core [OF inv rho room0, of "identifier"] by blast
  have clear: "\<forall>i. last_block_offset (hashlen (security params)) (length m) \<le> i \<and> i < length m
            \<longrightarrow> msg_W c ! i = m ! i"
    using tail long by (simp add: in_last_block_def)
  have dec: "\<forall>output. length m \<le> length output
            \<and> (\<forall>i. last_block_offset (hashlen (security params)) (length m) \<le> i \<and> i < length m
                   \<longrightarrow> output ! i = 0)
          \<longrightarrow> (\<exists>out. bf_decrypt output params (bf_generate_private_key params s identifier) c
                        = Some (True, out)
                    \<and> take (length m) out = m)"
  proof (intro allI impI)
    fix outp :: "u8 list"
    assume a: "length m \<le> length outp
            \<and> (\<forall>i. last_block_offset (hashlen (security params)) (length m) \<le> i \<and> i < length m
                   \<longrightarrow> outp ! i = 0)"
    then have room: "length m \<le> length outp"
      and zero: "\<forall>i. in_last_block (hashlen (security params)) (length m) i \<longrightarrow> outp ! i = 0"
      by (simp_all add: in_last_block_def)
    obtain out where "encrypt_then_decrypt outp params s identifier m (Some rho) = Some (True, out)"
        "take (length m) out = m"
      using roundtrip_zeroed [OF inv rho room zero, of "identifier"] by blast
    then show "\<exists>out. bf_decrypt outp params (bf_generate_private_key params s identifier) c
                        = Some (True, out) \<and> take (length m) out = m"
      using enc by (simp add: encrypt_then_decrypt_def)
  qed
  from enc clear dec show ?thesis by blast
qed

section \<open>Running the code on the small instance\<close>

lemma hash_to_range_spec:
  assumes "digest_sized sec" and "0 < q"
  shows "hash_to_range sec b q = Some (spec_hash_to_range (hashfcn sec) (hashlen sec) b q)"
proof -
  have len: "length (hashfcn sec d) = hashlen sec" for d
    using assms(1) by (simp add: digest_sized_def)
  show ?thesis
    using assms(2)
    by (simp add: hash_to_range_def spec_hash_to_range_def Let_def hash_to_range_loop_two_rounds
        mpz_import_big_endian len mpz_mod_def)
qed

lemma hash_to_range_eval:
  assumes "digest_sized sec" and "0 < q"
    and "hashfcn sec (replicate (hashlen sec) 0 @ b) = h1"
    and "hashfcn sec (h1 @ b) = h2"
    and "(big_endian_int h1 * 256 ^ hashlen sec + big_endian_int h2) mod q = v"
  shows "hash_to_range sec b q = Some v"
  using assms(3-5) hash_to_range_spec [OF assms(1,2), of b]
  by (simp add: spec_hash_to_range_def Let_def)

lemma hash_to_bytes_eval_two_blocks:
  assumes sized: "digest_sized sec"
    and n: "hashlen sec < outlen" "outlen \<le> 2 * hashlen sec"
    and K: "hashfcn sec seed = K"
    and g1: "hashfcn sec (replicate (hashlen sec) 0) = g1"
    and r1: "hashfcn sec (g1 @ K) = r1"
    and g2: "hashfcn sec g1 = g2"
    and r2: "hashfcn sec (g2 @ K) = r2"
  shows "hash_to_bytes result sec outlen seed
         = Some (memcpy (memcpy result 0 r1 (hashlen sec)) 0 r2 (outlen - hashlen sec))"
proof -
  have len: "length (hashfcn sec d) = hashlen sec" for d
    using sized by (simp add: digest_sized_def)
  have lens: "length K = hashlen sec" "length g1 = hashlen sec" "length g2 = hashlen sec"
    using K g1 g2 len by auto
  have pos: "0 < hashlen sec" using n by simp
  have rest: "\<not> hashlen sec < outlen - hashlen sec" "outlen - hashlen sec \<noteq> 0"
    using n by simp_all
  have second: "hash_to_bytes_run (hashfcn sec) (hashlen sec) K g1 buf (hashlen sec)
        (outlen - hashlen sec) = memcpy buf 0 r2 (outlen - hashlen sec)" for buf
    using rest pos lens g2 r2
    by (subst hash_to_bytes_run.simps) (simp add: Let_def)
  have "hash_to_bytes_run (hashfcn sec) (hashlen sec) K (replicate (hashlen sec) 0) result 0 outlen
      = hash_to_bytes_run (hashfcn sec) (hashlen sec) K g1 (memcpy result 0 r1 (hashlen sec))
          (hashlen sec) (outlen - hashlen sec)"
    using n pos lens g1 r1
    by (subst hash_to_bytes_run.simps) (simp add: Let_def)
  then show ?thesis
    using pos K by (simp add: hash_to_bytes_run_eq second)
qed

lemma toy_fields:
  "security (toy_params 1) = toy_security 1" "pairing (toy_params 1) = toy_pairing"
  "P_base (toy_params 1) = Point 31 18" "P_pub_precomp (toy_params 1) = Point 13 24"
  "q_ord (toy_params 1) = 11" "hashlen (toy_security 1) = 20"
  "hashfcn (toy_security 1) = toy_digest 20"
  by (simp_all add: toy_params_1 toy_security_1)

lemma toy_digest_take: "take n (toy_digest n d) = toy_digest n d"
  by (simp add: toy_digest_length)

lemma toy_rho_take: "take 20 toy_rho = toy_rho"
  by (simp add: toy_rho_def)

lemma toy_keys:
  "bf_generate_public_key (toy_params 1) alice = Point 4 5"
  "bf_generate_private_key (toy_params 1) 7 alice = Point 23 8"
  "bf_generate_private_key (toy_params 1) 7 bob = Point 13 24"
  by code_simp+

lemma toy_group:
  "element_mul_mpz_G1 toy_pairing (Point 31 18) 10 = Point 31 25"
  "element_mul_mpz_G1 toy_pairing (Point 31 18) 1 = Point 31 18"
  "element_mul_mpz_G1 toy_pairing (Point 31 18) 3 = Point 23 35"
  "element_to_bytes_GT toy_pairing (element_pow_mpz_GT toy_pairing
      (pairing_pp_apply toy_pairing (Point 4 5) (Point 13 24)) 10) = [3]"
  "element_to_bytes_GT toy_pairing (element_pairing toy_pairing (Point 31 25) (Point 23 8)) = [3]"
  "element_to_bytes_GT toy_pairing (element_pairing toy_pairing (Point 31 25) (Point 13 24)) = [4]"
  by code_simp+

lemma toy_digest_m: "toy_digest 20 toy_m = [190, 203, 216, 229, 242, 255, 12, 25, 38, 51, 64, 77, 90, 103, 116, 129, 142, 155, 168, 181]"
  by (simp add: toy_digest_eval toy_m_def upt_eval)

lemma toy_l: "hash_to_range (toy_security 1) (toy_rho @ toy_digest 20 toy_m) 11 = Some 10"
proof (rule hash_to_range_eval [OF toy_security_1_sized])
  show "(0::int) < 11" by simp
  show "hashfcn (toy_security 1) (replicate (hashlen (toy_security 1)) 0 @ toy_rho @ toy_digest 20 toy_m)
      = [113, 126, 139, 152, 165, 178, 191, 204, 217, 230, 243, 0, 13, 26, 39, 52, 65, 78, 91, 104]"
    by (simp add: toy_fields toy_digest_m toy_rho_def replicate_eval, simp add: toy_digest_eval upt_eval)
  show "hashfcn (toy_security 1) ([113, 126, 139, 152, 165, 178, 191, 204, 217, 230, 243, 0, 13, 26, 39, 52, 65, 78, 91, 104] @ toy_rho @ toy_digest 20 toy_m) = [235, 248, 5, 18, 31, 44, 57, 70, 83, 96, 109, 122, 135, 148, 161, 174, 187, 200, 213, 226]"
    by (simp add: toy_fields toy_digest_m toy_rho_def, simp add: toy_digest_eval upt_eval)
  show "(big_endian_int [113, 126, 139, 152, 165, 178, 191, 204, 217, 230, 243, 0, 13, 26, 39, 52, 65, 78, 91, 104] * 256 ^ hashlen (toy_security 1) + big_endian_int [235, 248, 5, 18, 31, 44, 57, 70, 83, 96, 109, 122, 135, 148, 161, 174, 187, 200, 213, 226]) mod 11 = 10"
    by (simp add: toy_fields)
qed

lemma toy_mask_zero_buffer:
  "hash_to_bytes (replicate 25 0) (toy_security 1) 25 toy_rho = Some [205, 218, 231, 244, 1, 198, 211, 224, 237, 250, 7, 20, 33, 46, 59, 72, 85, 98, 111, 124, 0, 0, 0, 0, 0]"
proof -
  have "hash_to_bytes (replicate 25 0) (toy_security 1) 25 toy_rho
      = Some (memcpy (memcpy (replicate 25 0) 0 [133, 146, 159, 172, 185, 198, 211, 224, 237, 250, 7, 20, 33, 46, 59, 72, 85, 98, 111, 124] (hashlen (toy_security 1))) 0 [205, 218, 231, 244, 1, 14, 27, 40, 53, 66, 79, 92, 105, 118, 131, 144, 157, 170, 183, 196]
                (25 - hashlen (toy_security 1)))"
  proof (rule hash_to_bytes_eval_two_blocks [OF toy_security_1_sized])
    show "hashlen (toy_security 1) < 25" "25 \<le> 2 * hashlen (toy_security 1)"
      by (simp_all add: toy_fields)
    show "hashfcn (toy_security 1) toy_rho = [219, 232, 245, 2, 15, 28, 41, 54, 67, 80, 93, 106, 119, 132, 145, 158, 171, 184, 197, 210]"
      by (simp add: toy_fields toy_rho_def, simp add: toy_digest_eval upt_eval)
    show "hashfcn (toy_security 1) (replicate (hashlen (toy_security 1)) 0) = [141, 154, 167, 180, 193, 206, 219, 232, 245, 2, 15, 28, 41, 54, 67, 80, 93, 106, 119, 132]"
      by (simp add: toy_fields replicate_eval, simp add: toy_digest_eval upt_eval)
    show "hashfcn (toy_security 1) ([141, 154, 167, 180, 193, 206, 219, 232, 245, 2, 15, 28, 41, 54, 67, 80, 93, 106, 119, 132] @ [219, 232, 245, 2, 15, 28, 41, 54, 67, 80, 93, 106, 119, 132, 145, 158, 171, 184, 197, 210]) = [133, 146, 159, 172, 185, 198, 211, 224, 237, 250, 7, 20, 33, 46, 59, 72, 85, 98, 111, 124]"
      by (simp add: toy_fields, simp add: toy_digest_eval upt_eval)
    show "hashfcn (toy_security 1) [141, 154, 167, 180, 193, 206, 219, 232, 245, 2, 15, 28, 41, 54, 67, 80, 93, 106, 119, 132] = [55, 68, 81, 94, 107, 120, 133, 146, 159, 172, 185, 198, 211, 224, 237, 250, 7, 20, 33, 46]"
      by (simp add: toy_fields, simp add: toy_digest_eval upt_eval)
    show "hashfcn (toy_security 1) ([55, 68, 81, 94, 107, 120, 133, 146, 159, 172, 185, 198, 211, 224, 237, 250, 7, 20, 33, 46] @ [219, 232, 245, 2, 15, 28, 41, 54, 67, 80, 93, 106, 119, 132, 145, 158, 171, 184, 197, 210]) = [205, 218, 231, 244, 1, 14, 27, 40, 53, 66, 79, 92, 105, 118, 131, 144, 157, 170, 183, 196]"
      by (simp add: toy_fields, simp add: toy_digest_eval upt_eval)
  qed
  then show ?thesis
    by (simp add: toy_fields memcpy_def replicate_eval)
qed

lemma toy_V: "xor_into 20 (toy_digest 20 [3]) toy_rho = [10, 28, 34, 56, 50, 92, 74, 112, 106, 156, 146, 184, 130, 156, 234, 224, 234, 220, 194, 56]"
  by (simp add: toy_rho_def toy_digest_eval xor_into_def upt_eval)

lemma toy_W: "xor_into 25 [205, 218, 231, 244, 1, 198, 211, 224, 237, 250, 7, 20, 33, 46, 59, 72, 85, 98, 111, 124, 0, 0, 0, 0, 0] toy_m = [207, 221, 235, 229, 23, 221, 243, 197, 199, 213, 51, 45, 31, 109, 115, 5, 7, 53, 51, 29, 102, 107, 112, 117, 122]"
  by (simp add: toy_m_def xor_into_def upt_eval)

lemma toy_encrypt:
  "bf_encrypt (toy_params 1) (bf_generate_public_key (toy_params 1) alice) toy_m (Some toy_rho)
     = Some (Some toy_ct)"
proof -
  have len: "length toy_m = 25" by (simp add: toy_m_def)
  have "bf_encrypt (toy_params 1) (Point 4 5) toy_m (Some toy_rho) =
     Some (Some \<lparr>msg_length = length toy_m,
                 msg_U = element_mul_mpz_G1 (pairing (toy_params 1)) (P_base (toy_params 1)) 10,
                 msg_V = xor_into (hashlen (security (toy_params 1)))
                   (hashfcn (security (toy_params 1)) (element_to_bytes_GT (pairing (toy_params 1))
                      (element_pow_mpz_GT (pairing (toy_params 1))
                         (pairing_pp_apply (pairing (toy_params 1)) (Point 4 5)
                            (P_pub_precomp (toy_params 1))) 10)))
                   toy_rho,
                 msg_W = xor_into (length toy_m) [205, 218, 231, 244, 1, 198, 211, 224, 237, 250, 7, 20, 33, 46, 59, 72, 85, 98, 111, 124, 0, 0, 0, 0, 0] toy_m\<rparr>)"
  proof (rule bf_encrypt_steps)
    show "hash_to_range (security (toy_params 1)) (take (hashlen (security (toy_params 1))) toy_rho
              @ take (hashlen (security (toy_params 1))) (hashfcn (security (toy_params 1)) toy_m))
            (q_ord (toy_params 1)) = Some 10"
      by (simp only: toy_fields toy_rho_take toy_digest_take toy_l)
    show "hash_to_bytes (replicate (length toy_m) 0) (security (toy_params 1)) (length toy_m)
              (take (hashlen (security (toy_params 1))) toy_rho) = Some [205, 218, 231, 244, 1, 198, 211, 224, 237, 250, 7, 20, 33, 46, 59, 72, 85, 98, 111, 124, 0, 0, 0, 0, 0]"
      by (simp only: toy_fields toy_rho_take len toy_mask_zero_buffer)
  qed
  then show ?thesis
    by (simp only: toy_fields toy_keys len toy_group toy_V toy_W toy_ct_def)
qed







lemma toy_decrypt_ones_w:
  "xor_into 20 (toy_digest 20 [3]) (msg_V toy_ct) = [1, 4, 7, 10, 13, 16, 19, 22, 25, 28, 31, 34, 37, 40, 43, 46, 49, 52, 55, 58]"
  by (simp add: toy_ct_def toy_digest_eval xor_into_def upt_eval)

lemma toy_decrypt_ones_mask:
  "hash_to_bytes (replicate 25 1) (toy_security 1) 25 [1, 4, 7, 10, 13, 16, 19, 22, 25, 28, 31, 34, 37, 40, 43, 46, 49, 52, 55, 58] = Some [205, 218, 231, 244, 1, 198, 211, 224, 237, 250, 7, 20, 33, 46, 59, 72, 85, 98, 111, 124, 1, 1, 1, 1, 1]"
proof -
  have "hash_to_bytes (replicate 25 1) (toy_security 1) 25 [1, 4, 7, 10, 13, 16, 19, 22, 25, 28, 31, 34, 37, 40, 43, 46, 49, 52, 55, 58]
      = Some (memcpy (memcpy (replicate 25 1) 0 [133, 146, 159, 172, 185, 198, 211, 224, 237, 250, 7, 20, 33, 46, 59, 72, 85, 98, 111, 124] (hashlen (toy_security 1))) 0 [205, 218, 231, 244, 1, 14, 27, 40, 53, 66, 79, 92, 105, 118, 131, 144, 157, 170, 183, 196]
                (25 - hashlen (toy_security 1)))"
  proof (rule hash_to_bytes_eval_two_blocks [OF toy_security_1_sized])
    show "hashlen (toy_security 1) < 25" "25 \<le> 2 * hashlen (toy_security 1)"
      by (simp_all add: toy_fields)
    show "hashfcn (toy_security 1) [1, 4, 7, 10, 13, 16, 19, 22, 25, 28, 31, 34, 37, 40, 43, 46, 49, 52, 55, 58] = [219, 232, 245, 2, 15, 28, 41, 54, 67, 80, 93, 106, 119, 132, 145, 158, 171, 184, 197, 210]"
      by (simp add: toy_fields, simp add: toy_digest_eval upt_eval)
    show "hashfcn (toy_security 1) (replicate (hashlen (toy_security 1)) 0) = [141, 154, 167, 180, 193, 206, 219, 232, 245, 2, 15, 28, 41, 54, 67, 80, 93, 106, 119, 132]"
      by (simp add: toy_fields replicate_eval, simp add: toy_digest_eval upt_eval)
    show "hashfcn (toy_security 1) ([141, 154, 167, 180, 193, 206, 219, 232, 245, 2, 15, 28, 41, 54, 67, 80, 93, 106, 119, 132] @ [219, 232, 245, 2, 15, 28, 41, 54, 67, 80, 93, 106, 119, 132, 145, 158, 171, 184, 197, 210]) = [133, 146, 159, 172, 185, 198, 211, 224, 237, 250, 7, 20, 33, 46, 59, 72, 85, 98, 111, 124]"
      by (simp add: toy_fields, simp add: toy_digest_eval upt_eval)
    show "hashfcn (toy_security 1) [141, 154, 167, 180, 193, 206, 219, 232, 245, 2, 15, 28, 41, 54, 67, 80, 93, 106, 119, 132] = [55, 68, 81, 94, 107, 120, 133, 146, 159, 172, 185, 198, 211, 224, 237, 250, 7, 20, 33, 46]"
      by (simp add: toy_fields, simp add: toy_digest_eval upt_eval)
    show "hashfcn (toy_security 1) ([55, 68, 81, 94, 107, 120, 133, 146, 159, 172, 185, 198, 211, 224, 237, 250, 7, 20, 33, 46] @ [219, 232, 245, 2, 15, 28, 41, 54, 67, 80, 93, 106, 119, 132, 145, 158, 171, 184, 197, 210]) = [205, 218, 231, 244, 1, 14, 27, 40, 53, 66, 79, 92, 105, 118, 131, 144, 157, 170, 183, 196]"
      by (simp add: toy_fields, simp add: toy_digest_eval upt_eval)
  qed
  then show ?thesis
    by (simp add: toy_fields memcpy_def replicate_eval)
qed

lemma toy_decrypt_ones_plain:
  "xor_into 25 [205, 218, 231, 244, 1, 198, 211, 224, 237, 250, 7, 20, 33, 46, 59, 72, 85, 98, 111, 124, 1, 1, 1, 1, 1] (msg_W toy_ct) = [2, 7, 12, 17, 22, 27, 32, 37, 42, 47, 52, 57, 62, 67, 72, 77, 82, 87, 92, 97, 103, 106, 113, 116, 123]"
  by (simp add: toy_ct_def xor_into_def upt_eval)

lemma toy_decrypt_ones_digest: "toy_digest 20 [2, 7, 12, 17, 22, 27, 32, 37, 42, 47, 52, 57, 62, 67, 72, 77, 82, 87, 92, 97, 103, 106, 113, 116, 123] = [191, 204, 217, 230, 243, 0, 13, 26, 39, 52, 65, 78, 91, 104, 117, 130, 143, 156, 169, 182]"
  by (simp add: toy_digest_eval upt_eval)

lemma toy_decrypt_ones_l: "hash_to_range (toy_security 1) ([1, 4, 7, 10, 13, 16, 19, 22, 25, 28, 31, 34, 37, 40, 43, 46, 49, 52, 55, 58] @ [191, 204, 217, 230, 243, 0, 13, 26, 39, 52, 65, 78, 91, 104, 117, 130, 143, 156, 169, 182]) 11 = Some 1"
proof (rule hash_to_range_eval [OF toy_security_1_sized])
  show "(0::int) < 11" by simp
  show "hashfcn (toy_security 1) (replicate (hashlen (toy_security 1)) 0 @ [1, 4, 7, 10, 13, 16, 19, 22, 25, 28, 31, 34, 37, 40, 43, 46, 49, 52, 55, 58] @ [191, 204, 217, 230, 243, 0, 13, 26, 39, 52, 65, 78, 91, 104, 117, 130, 143, 156, 169, 182]) = [133, 146, 159, 172, 185, 198, 211, 224, 237, 250, 7, 20, 33, 46, 59, 72, 85, 98, 111, 124]"
    by (simp add: toy_fields replicate_eval, simp add: toy_digest_eval upt_eval)
  show "hashfcn (toy_security 1) ([133, 146, 159, 172, 185, 198, 211, 224, 237, 250, 7, 20, 33, 46, 59, 72, 85, 98, 111, 124] @ [1, 4, 7, 10, 13, 16, 19, 22, 25, 28, 31, 34, 37, 40, 43, 46, 49, 52, 55, 58] @ [191, 204, 217, 230, 243, 0, 13, 26, 39, 52, 65, 78, 91, 104, 117, 130, 143, 156, 169, 182]) = [143, 156, 169, 182, 195, 208, 221, 234, 247, 4, 17, 30, 43, 56, 69, 82, 95, 108, 121, 134]"
    by (simp add: toy_fields, simp add: toy_digest_eval upt_eval)
  show "(big_endian_int [133, 146, 159, 172, 185, 198, 211, 224, 237, 250, 7, 20, 33, 46, 59, 72, 85, 98, 111, 124] * 256 ^ hashlen (toy_security 1) + big_endian_int [143, 156, 169, 182, 195, 208, 221, 234, 247, 4, 17, 30, 43, 56, 69, 82, 95, 108, 121, 134]) mod 11 = 1"
    by (simp add: toy_fields)
qed

lemma toy_decrypt_ones:
  "bf_decrypt (replicate 25 1) (toy_params 1) (Point 23 8) toy_ct = Some (False, [0, 0, 0, 0, 0, 0, 0, 0, 0, 0, 0, 0, 0, 0, 0, 0, 0, 0, 0, 0, 0, 0, 0, 0, 0])"
proof -
  have f: "msg_length toy_ct = 25" "msg_U toy_ct = Point 31 25"
    by (simp_all add: toy_ct_def)
  have tk: "take 20 [1, 4, 7, 10, 13, 16, 19, 22, 25, 28, 31, 34, 37, 40, 43, 46, 49, 52, 55, 58] = [1, 4, 7, 10, 13, 16, 19, 22, 25, 28, 31, 34, 37, 40, 43, 46, 49, 52, 55, 58]" "take 25 [2, 7, 12, 17, 22, 27, 32, 37, 42, 47, 52, 57, 62, 67, 72, 77, 82, 87, 92, 97, 103, 106, 113, 116, 123] = [2, 7, 12, 17, 22, 27, 32, 37, 42, 47, 52, 57, 62, 67, 72, 77, 82, 87, 92, 97, 103, 106, 113, 116, 123]" "take 20 [191, 204, 217, 230, 243, 0, 13, 26, 39, 52, 65, 78, 91, 104, 117, 130, 143, 156, 169, 182] = [191, 204, 217, 230, 243, 0, 13, 26, 39, 52, 65, 78, 91, 104, 117, 130, 143, 156, 169, 182]"
    by simp_all
  have "bf_decrypt (replicate 25 1) (toy_params 1) (Point 23 8) toy_ct =
     Some (if msg_U toy_ct \<noteq> element_mul_mpz_G1 (pairing (toy_params 1)) (P_base (toy_params 1)) 1
           then (False, memset0 [2, 7, 12, 17, 22, 27, 32, 37, 42, 47, 52, 57, 62, 67, 72, 77, 82, 87, 92, 97, 103, 106, 113, 116, 123] (msg_length toy_ct)) else (True, [2, 7, 12, 17, 22, 27, 32, 37, 42, 47, 52, 57, 62, 67, 72, 77, 82, 87, 92, 97, 103, 106, 113, 116, 123]))"
  proof (rule bf_decrypt_steps)
    show "[1, 4, 7, 10, 13, 16, 19, 22, 25, 28, 31, 34, 37, 40, 43, 46, 49, 52, 55, 58] = xor_into (hashlen (security (toy_params 1)))
                 (hashfcn (security (toy_params 1)) (element_to_bytes_GT (pairing (toy_params 1))
                    (element_pairing (pairing (toy_params 1)) (msg_U toy_ct) (Point 23 8))))
                 (msg_V toy_ct)"
      by (simp only: toy_fields f toy_group toy_decrypt_ones_w)
    show "hash_to_bytes (replicate 25 1) (security (toy_params 1)) (msg_length toy_ct)
              (take (hashlen (security (toy_params 1))) [1, 4, 7, 10, 13, 16, 19, 22, 25, 28, 31, 34, 37, 40, 43, 46, 49, 52, 55, 58]) = Some [205, 218, 231, 244, 1, 198, 211, 224, 237, 250, 7, 20, 33, 46, 59, 72, 85, 98, 111, 124, 1, 1, 1, 1, 1]"
      by (simp only: toy_fields f tk toy_decrypt_ones_mask)
    show "[2, 7, 12, 17, 22, 27, 32, 37, 42, 47, 52, 57, 62, 67, 72, 77, 82, 87, 92, 97, 103, 106, 113, 116, 123] = xor_into (msg_length toy_ct) [205, 218, 231, 244, 1, 198, 211, 224, 237, 250, 7, 20, 33, 46, 59, 72, 85, 98, 111, 124, 1, 1, 1, 1, 1] (msg_W toy_ct)"
      by (simp only: f toy_decrypt_ones_plain)
    show "hash_to_range (security (toy_params 1)) (take (hashlen (security (toy_params 1))) [1, 4, 7, 10, 13, 16, 19, 22, 25, 28, 31, 34, 37, 40, 43, 46, 49, 52, 55, 58]
              @ take (hashlen (security (toy_params 1)))
                  (hashfcn (security (toy_params 1)) (take (msg_length toy_ct) [2, 7, 12, 17, 22, 27, 32, 37, 42, 47, 52, 57, 62, 67, 72, 77, 82, 87, 92, 97, 103, 106, 113, 116, 123])))
              (q_ord (toy_params 1)) = Some 1"
      by (simp only: toy_fields f tk toy_decrypt_ones_digest toy_decrypt_ones_l)
  qed
  then show ?thesis
    by (simp add: toy_fields f toy_group memset0_def replicate_eval)
qed

lemma toy_decrypt_bob_w:
  "xor_into 20 (toy_digest 20 [4]) (msg_V toy_ct) = [6, 5, 4, 11, 114, 17, 16, 23, 30, 29, 28, 35, 42, 41, 40, 47, 54, 53, 52, 59]"
  by (simp add: toy_ct_def toy_digest_eval xor_into_def upt_eval)

lemma toy_decrypt_bob_mask:
  "hash_to_bytes (replicate 25 0) (toy_security 1) 25 [6, 5, 4, 11, 114, 17, 16, 23, 30, 29, 28, 35, 42, 41, 40, 47, 54, 53, 52, 59] = Some [221, 234, 247, 4, 17, 214, 227, 240, 253, 10, 23, 36, 49, 62, 75, 88, 101, 114, 127, 140, 0, 0, 0, 0, 0]"
proof -
  have "hash_to_bytes (replicate 25 0) (toy_security 1) 25 [6, 5, 4, 11, 114, 17, 16, 23, 30, 29, 28, 35, 42, 41, 40, 47, 54, 53, 52, 59]
      = Some (memcpy (memcpy (replicate 25 0) 0 [149, 162, 175, 188, 201, 214, 227, 240, 253, 10, 23, 36, 49, 62, 75, 88, 101, 114, 127, 140] (hashlen (toy_security 1))) 0 [221, 234, 247, 4, 17, 30, 43, 56, 69, 82, 95, 108, 121, 134, 147, 160, 173, 186, 199, 212]
                (25 - hashlen (toy_security 1)))"
  proof (rule hash_to_bytes_eval_two_blocks [OF toy_security_1_sized])
    show "hashlen (toy_security 1) < 25" "25 \<le> 2 * hashlen (toy_security 1)"
      by (simp_all add: toy_fields)
    show "hashfcn (toy_security 1) [6, 5, 4, 11, 114, 17, 16, 23, 30, 29, 28, 35, 42, 41, 40, 47, 54, 53, 52, 59] = [79, 92, 105, 118, 131, 144, 157, 170, 183, 196, 209, 222, 235, 248, 5, 18, 31, 44, 57, 70]"
      by (simp add: toy_fields, simp add: toy_digest_eval upt_eval)
    show "hashfcn (toy_security 1) (replicate (hashlen (toy_security 1)) 0) = [141, 154, 167, 180, 193, 206, 219, 232, 245, 2, 15, 28, 41, 54, 67, 80, 93, 106, 119, 132]"
      by (simp add: toy_fields replicate_eval, simp add: toy_digest_eval upt_eval)
    show "hashfcn (toy_security 1) ([141, 154, 167, 180, 193, 206, 219, 232, 245, 2, 15, 28, 41, 54, 67, 80, 93, 106, 119, 132] @ [79, 92, 105, 118, 131, 144, 157, 170, 183, 196, 209, 222, 235, 248, 5, 18, 31, 44, 57, 70]) = [149, 162, 175, 188, 201, 214, 227, 240, 253, 10, 23, 36, 49, 62, 75, 88, 101, 114, 127, 140]"
      by (simp add: toy_fields, simp add: toy_digest_eval upt_eval)
    show "hashfcn (toy_security 1) [141, 154, 167, 180, 193, 206, 219, 232, 245, 2, 15, 28, 41, 54, 67, 80, 93, 106, 119, 132] = [55, 68, 81, 94, 107, 120, 133, 146, 159, 172, 185, 198, 211, 224, 237, 250, 7, 20, 33, 46]"
      by (simp add: toy_fields, simp add: toy_digest_eval upt_eval)
    show "hashfcn (toy_security 1) ([55, 68, 81, 94, 107, 120, 133, 146, 159, 172, 185, 198, 211, 224, 237, 250, 7, 20, 33, 46] @ [79, 92, 105, 118, 131, 144, 157, 170, 183, 196, 209, 222, 235, 248, 5, 18, 31, 44, 57, 70]) = [221, 234, 247, 4, 17, 30, 43, 56, 69, 82, 95, 108, 121, 134, 147, 160, 173, 186, 199, 212]"
      by (simp add: toy_fields, simp add: toy_digest_eval upt_eval)
  qed
  then show ?thesis
    by (simp add: toy_fields memcpy_def replicate_eval)
qed

lemma toy_decrypt_bob_plain:
  "xor_into 25 [221, 234, 247, 4, 17, 214, 227, 240, 253, 10, 23, 36, 49, 62, 75, 88, 101, 114, 127, 140, 0, 0, 0, 0, 0] (msg_W toy_ct) = [18, 55, 28, 225, 6, 11, 16, 53, 58, 223, 36, 9, 46, 83, 56, 93, 98, 71, 76, 145, 102, 107, 112, 117, 122]"
  by (simp add: toy_ct_def xor_into_def upt_eval)

lemma toy_decrypt_bob_digest: "toy_digest 20 [18, 55, 28, 225, 6, 11, 16, 53, 58, 223, 36, 9, 46, 83, 56, 93, 98, 71, 76, 145, 102, 107, 112, 117, 122] = [94, 107, 120, 133, 146, 159, 172, 185, 198, 211, 224, 237, 250, 7, 20, 33, 46, 59, 72, 85]"
  by (simp add: toy_digest_eval upt_eval)

lemma toy_decrypt_bob_l: "hash_to_range (toy_security 1) ([6, 5, 4, 11, 114, 17, 16, 23, 30, 29, 28, 35, 42, 41, 40, 47, 54, 53, 52, 59] @ [94, 107, 120, 133, 146, 159, 172, 185, 198, 211, 224, 237, 250, 7, 20, 33, 46, 59, 72, 85]) 11 = Some 3"
proof (rule hash_to_range_eval [OF toy_security_1_sized])
  show "(0::int) < 11" by simp
  show "hashfcn (toy_security 1) (replicate (hashlen (toy_security 1)) 0 @ [6, 5, 4, 11, 114, 17, 16, 23, 30, 29, 28, 35, 42, 41, 40, 47, 54, 53, 52, 59] @ [94, 107, 120, 133, 146, 159, 172, 185, 198, 211, 224, 237, 250, 7, 20, 33, 46, 59, 72, 85]) = [101, 114, 127, 140, 153, 166, 179, 192, 205, 218, 231, 244, 1, 14, 27, 40, 53, 66, 79, 92]"
    by (simp add: toy_fields replicate_eval, simp add: toy_digest_eval upt_eval)
  show "hashfcn (toy_security 1) ([101, 114, 127, 140, 153, 166, 179, 192, 205, 218, 231, 244, 1, 14, 27, 40, 53, 66, 79, 92] @ [6, 5, 4, 11, 114, 17, 16, 23, 30, 29, 28, 35, 42, 41, 40, 47, 54, 53, 52, 59] @ [94, 107, 120, 133, 146, 159, 172, 185, 198, 211, 224, 237, 250, 7, 20, 33, 46, 59, 72, 85]) = [239, 252, 9, 22, 35, 48, 61, 74, 87, 100, 113, 126, 139, 152, 165, 178, 191, 204, 217, 230]"
    by (simp add: toy_fields, simp add: toy_digest_eval upt_eval)
  show "(big_endian_int [101, 114, 127, 140, 153, 166, 179, 192, 205, 218, 231, 244, 1, 14, 27, 40, 53, 66, 79, 92] * 256 ^ hashlen (toy_security 1) + big_endian_int [239, 252, 9, 22, 35, 48, 61, 74, 87, 100, 113, 126, 139, 152, 165, 178, 191, 204, 217, 230]) mod 11 = 3"
    by (simp add: toy_fields)
qed

lemma toy_decrypt_bob:
  "bf_decrypt (replicate 25 0) (toy_params 1) (Point 13 24) toy_ct = Some (False, [0, 0, 0, 0, 0, 0, 0, 0, 0, 0, 0, 0, 0, 0, 0, 0, 0, 0, 0, 0, 0, 0, 0, 0, 0])"
proof -
  have f: "msg_length toy_ct = 25" "msg_U toy_ct = Point 31 25"
    by (simp_all add: toy_ct_def)
  have tk: "take 20 [6, 5, 4, 11, 114, 17, 16, 23, 30, 29, 28, 35, 42, 41, 40, 47, 54, 53, 52, 59] = [6, 5, 4, 11, 114, 17, 16, 23, 30, 29, 28, 35, 42, 41, 40, 47, 54, 53, 52, 59]" "take 25 [18, 55, 28, 225, 6, 11, 16, 53, 58, 223, 36, 9, 46, 83, 56, 93, 98, 71, 76, 145, 102, 107, 112, 117, 122] = [18, 55, 28, 225, 6, 11, 16, 53, 58, 223, 36, 9, 46, 83, 56, 93, 98, 71, 76, 145, 102, 107, 112, 117, 122]" "take 20 [94, 107, 120, 133, 146, 159, 172, 185, 198, 211, 224, 237, 250, 7, 20, 33, 46, 59, 72, 85] = [94, 107, 120, 133, 146, 159, 172, 185, 198, 211, 224, 237, 250, 7, 20, 33, 46, 59, 72, 85]"
    by simp_all
  have "bf_decrypt (replicate 25 0) (toy_params 1) (Point 13 24) toy_ct =
     Some (if msg_U toy_ct \<noteq> element_mul_mpz_G1 (pairing (toy_params 1)) (P_base (toy_params 1)) 3
           then (False, memset0 [18, 55, 28, 225, 6, 11, 16, 53, 58, 223, 36, 9, 46, 83, 56, 93, 98, 71, 76, 145, 102, 107, 112, 117, 122] (msg_length toy_ct)) else (True, [18, 55, 28, 225, 6, 11, 16, 53, 58, 223, 36, 9, 46, 83, 56, 93, 98, 71, 76, 145, 102, 107, 112, 117, 122]))"
  proof (rule bf_decrypt_steps)
    show "[6, 5, 4, 11, 114, 17, 16, 23, 30, 29, 28, 35, 42, 41, 40, 47, 54, 53, 52, 59] = xor_into (hashlen (security (toy_params 1)))
                 (hashfcn (security (toy_params 1)) (element_to_bytes_GT (pairing (toy_params 1))
                    (element_pairing (pairing (toy_params 1)) (msg_U toy_ct) (Point 13 24))))
                 (msg_V toy_ct)"
      by (simp only: toy_fields f toy_group toy_decrypt_bob_w)
    show "hash_to_bytes (replicate 25 0) (security (toy_params 1)) (msg_length toy_ct)
              (take (hashlen (security (toy_params 1))) [6, 5, 4, 11, 114, 17, 16, 23, 30, 29, 28, 35, 42, 41, 40, 47, 54, 53, 52, 59]) = Some [221, 234, 247, 4, 17, 214, 227, 240, 253, 10, 23, 36, 49, 62, 75, 88, 101, 114, 127, 140, 0, 0, 0, 0, 0]"
      by (simp only: toy_fields f tk toy_decrypt_bob_mask)
    show "[18, 55, 28, 225, 6, 11, 16, 53, 58, 223, 36, 9, 46, 83, 56, 93, 98, 71, 76, 145, 102, 107, 112, 117, 122] = xor_into (msg_length toy_ct) [221, 234, 247, 4, 17, 214, 227, 240, 253, 10, 23, 36, 49, 62, 75, 88, 101, 114, 127, 140, 0, 0, 0, 0, 0] (msg_W toy_ct)"
      by (simp only: f toy_decrypt_bob_plain)
    show "hash_to_range (security (toy_params 1)) (take (hashlen (security (toy_params 1))) [6, 5, 4, 11, 114, 17, 16, 23, 30, 29, 28, 35, 42, 41, 40, 47, 54, 53, 52, 59]
              @ take (hashlen (security (toy_params 1)))
                  (hashfcn (security (toy_params 1)) (take (msg_length toy_ct) [18, 55, 28, 225, 6, 11, 16, 53, 58, 223, 36, 9, 46, 83, 56, 93, 98, 71, 76, 145, 102, 107, 112, 117, 122])))
              (q_ord (toy_params 1)) = Some 3"
      by (simp only: toy_fields f tk toy_decrypt_bob_digest toy_decrypt_bob_l)
  qed
  then show ?thesis
    by (simp add: toy_fields f toy_group memset0_def replicate_eval)
qed

section \<open>The defect in the engine\<close>

text \<open>
  C3. At level 1 the ciphertext of the 25-byte plaintext \<open>toy_m\<close> is \<open>toy_ct\<close>, and its \<open>W\<close>
  holds the bytes 20 to 24 of the plaintext in the clear: the last block of the mask
  went to offset 0 (hash.c line 92). But the round trip does not \<open>still succeed\<close>:
  \<open>bf_decrypt\<close> does not apply the mask that \<open>bf_encrypt\<close> applied, it takes the bytes 20
  to 24 of the mask from the caller's buffer. With the right key and a buffer that
  holds ones, decryption of the honest ciphertext returns \<open>false\<close> and a zeroed buffer.
\<close>

theorem tail_in_clear_and_roundtrip_fails:
  "bf_encrypt (toy_params 1) (bf_generate_public_key (toy_params 1) alice) toy_m (Some toy_rho)
     = Some (Some toy_ct)
   \<and> drop 20 (msg_W toy_ct) = drop 20 toy_m
   \<and> encrypt_then_decrypt (replicate 25 1) (toy_params 1) 7 alice toy_m (Some toy_rho)
       = Some (False, replicate 25 0)"
proof -
  have t: "drop 20 (msg_W toy_ct) = drop 20 toy_m"
    by (simp add: toy_ct_def toy_m_def)
  have o: "bf_decrypt (replicate 25 1) (toy_params 1)
        (bf_generate_private_key (toy_params 1) 7 alice) toy_ct = Some (False, replicate 25 0)"
    by (simp only: toy_keys toy_decrypt_ones) (simp add: replicate_eval)
  have "encrypt_then_decrypt (replicate 25 1) (toy_params 1) 7 alice toy_m (Some toy_rho)
       = Some (False, replicate 25 0)"
    by (simp add: encrypt_then_decrypt_def toy_encrypt o)
  with toy_encrypt t show ?thesis by simp
qed


section \<open>Ciphertext bytes\<close>

lemma mem_read_length: "length (mem_read mem off n) = n"
  by (simp add: mem_read_def)

lemma le_value_shifted:
  "le_value (map (\<lambda>i. word_of_nat (n div 256 ^ (j + i))) [0..<k]) = (n div 256 ^ j) mod 256 ^ k"
proof (induction k arbitrary: j)
  case 0
  then show ?case by (simp add: le_value_def)
next
  case (Suc k)
  define a where "a = n div 256 ^ j"
  have split: "[0..<Suc k] = 0 # map Suc [0..<k]"
    by (simp add: upt_conv_Cons map_Suc_upt del: upt_Suc)
  have ih: "le_value (map (\<lambda>i. word_of_nat (n div 256 ^ (Suc j + i)) :: u8) [0..<k])
      = (n div 256 ^ Suc j) mod 256 ^ k"
    by (rule Suc.IH)
  have shift: "n div 256 ^ Suc j = a div 256"
    by (simp only: a_def power_Suc2 div_mult2_eq)
  have u: "unat (word_of_nat a :: u8) = a mod 256"
    by (simp add: unat_of_nat)
  have "map (\<lambda>i. word_of_nat (n div 256 ^ (j + i)) :: u8) [0..<Suc k]
      = word_of_nat a # map (\<lambda>i. word_of_nat (n div 256 ^ (Suc j + i))) [0..<k]"
    by (simp only: split) (simp add: a_def comp_def)
  then have "le_value (map (\<lambda>i. word_of_nat (n div 256 ^ (j + i)) :: u8) [0..<Suc k])
      = unat (word_of_nat a :: u8)
        + 256 * le_value (map (\<lambda>i. word_of_nat (n div 256 ^ (Suc j + i)) :: u8) [0..<k])"
    by (simp only: le_value_def foldr.simps comp_def)
  also have "\<dots> = a mod 256 + 256 * (a div 256 mod 256 ^ k)"
    by (simp only: ih u shift)
  also have "\<dots> = a mod (256 * 256 ^ k)"
    by (simp only: mod_mult2_eq add.commute)
  finally show ?case by (simp only: a_def power_Suc)
qed

lemma le_value_le_bytes: "n < 256 ^ k \<Longrightarrow> le_value (le_bytes k n) = n"
  using le_value_shifted [of n 0 k] by (simp add: le_bytes_def)

lemma size_t_roundtrip:
  "n < 256 ^ sizeof_size_t hst \<Longrightarrow> size_t_value hst (size_t_bytes hst n) = n"
  by (simp add: size_t_value_def size_t_bytes_def le_value_le_bytes)

lemma size_t_bytes_length: "length (size_t_bytes hst n) = sizeof_size_t hst"
  by (simp add: size_t_bytes_def le_bytes_def)

lemma mem_read_memory_of:
  "off + n \<le> length bs \<Longrightarrow> mem_read (memory_of bs behind) off n = take n (drop off bs)"
  by (rule nth_equalityI) (simp_all add: mem_read_def memory_of_def)

lemma memory_of_inside: "i < length bs \<Longrightarrow> memory_of bs behind i = bs ! i"
  by (simp add: memory_of_def)

lemma nth_field:
  assumes "length S = k" "i < length Ub"
  shows "(S @ [x] @ Ub @ rest) ! (k + 1 + i) = Ub ! i"
proof -
  have "(S @ ([x] @ Ub @ rest)) ! (length S + (1 + i)) = ([x] @ Ub @ rest) ! (1 + i)"
    by (rule nth_append_length_plus)
  also have "\<dots> = (Ub @ rest) ! i" by simp
  also have "\<dots> = Ub ! i" using assms(2) by (simp add: nth_append)
  finally show ?thesis using assms(1) by (simp add: add.assoc)
qed


lemma le_value_sum: "le_value bs = (\<Sum>i<length bs. unat (bs ! i) * 256 ^ i)"
proof (induction bs)
  case Nil
  then show ?case by (simp add: le_value_def)
next
  case (Cons b bs)
  have "le_value (b # bs) = unat b + 256 * le_value bs"
    by (simp add: le_value_def)
  also have "\<dots> = unat b + 256 * (\<Sum>i<length bs. unat (bs ! i) * 256 ^ i)"
    by (simp only: Cons.IH)
  also have "\<dots> = (\<Sum>i<Suc (length bs). unat ((b # bs) ! i) * 256 ^ i)"
    by (simp add: sum.lessThan_Suc_shift sum_distrib_left mult.assoc mult.left_commute
          del: sum.lessThan_Suc)
  finally show ?case by simp
qed

lemma size_t_value_sum:
  "size_t_value hst (mem_read inp 0 k)
     = (\<Sum>i<k. unat (inp (if big_endian hst then k - 1 - i else i)) * 256 ^ i)"
proof (cases "big_endian hst")
  case False
  have "le_value (map inp [0..<k]) = (\<Sum>i<k. unat (map inp [0..<k] ! i) * 256 ^ i)"
    using le_value_sum [of "map inp [0..<k]"] by simp
  also have "\<dots> = (\<Sum>i<k. unat (inp i) * 256 ^ i)"
    by (rule sum.cong) simp_all
  finally show ?thesis using False by (simp add: size_t_value_def mem_read_def)
next
  case True
  have "le_value (rev (map inp [0..<k])) = (\<Sum>i<k. unat (rev (map inp [0..<k]) ! i) * 256 ^ i)"
    using le_value_sum [of "rev (map inp [0..<k])"] by simp
  also have "\<dots> = (\<Sum>i<k. unat (inp (k - 1 - i)) * 256 ^ i)"
    by (rule sum.cong) (simp_all add: rev_nth)
  finally show ?thesis using True by (simp add: size_t_value_def mem_read_def)
qed

text \<open>
  C10. \<open>bf_message_from_bytes\<close> returns \<open>false\<close> exactly when the byte behind the length
  field differs from the level of the parameters, and checks nothing else. The length of
  the message is the number that the first \<open>sizeof(size_t)\<close> bytes hold in the byte order
  of the host; \<open>V\<close> is the \<open>hashlen\<close> bytes and \<open>W\<close> the \<open>length\<close> bytes that lie behind the
  element in memory, whatever the caller put there and however much of it.
\<close>

theorem bf_message_from_bytes_checks_level_only:
  fixes params :: "('par, 'g1, 'g2, 'gt) BFPublicParameters"
  shows "bf_message_from_bytes hst inp params =
     (let k = sizeof_size_t hst;
          len = (\<Sum>i<k. unat (inp (if big_endian hst then k - 1 - i else i)) * 256 ^ i);
          hlen = hashlen (security params);
          U = fst (element_from_bytes_G1 (pairing params) (\<lambda>i. inp (k + 1 + i)));
          off = k + 1 + snd (element_from_bytes_G1 (pairing params) (\<lambda>i. inp (k + 1 + i)))
      in if inp k = level (security params)
         then Some \<lparr>msg_length = len, msg_U = U,
                     msg_V = map inp [off..<off + hlen],
                     msg_W = map inp [off + hlen..<off + hlen + len]\<rparr>
         else None)"
  unfolding bf_message_from_bytes_def Let_def size_t_value_sum
  by (simp add: mem_read_def split: prod.split)

text \<open>The message that \<open>bf_message_to_bytes\<close> wrote is read back.\<close>

lemma from_bytes_of_to_bytes:
  fixes params :: "('par, 'g1, 'g2, 'gt) BFPublicParameters"
  assumes V: "length (msg_V msg) = hashlen (security params)"
    and W: "length (msg_W msg) = msg_length msg"
    and range: "msg_length msg < 256 ^ sizeof_size_t hst"
    and U: "\<forall>mem. (\<forall>i<length (element_to_bytes_G1 (pairing params) (msg_U msg)).
                     mem i = element_to_bytes_G1 (pairing params) (msg_U msg) ! i)
              \<longrightarrow> element_from_bytes_G1 (pairing params) mem
                    = (msg_U msg, length (element_to_bytes_G1 (pairing params) (msg_U msg)))"
  shows "bf_message_from_bytes hst
           (memory_of (fst (bf_message_to_bytes hst params msg)) behind) params = Some msg
         \<and> snd (bf_message_to_bytes hst params msg)
             = length (fst (bf_message_to_bytes hst params msg))"
proof -
  let ?k = "sizeof_size_t hst"
  let ?S = "size_t_bytes hst (msg_length msg)"
  let ?Ub = "element_to_bytes_G1 (pairing params) (msg_U msg)"
  let ?bs = "?S @ [level (security params)] @ ?Ub @ msg_V msg @ msg_W msg"
  define mem where "mem = memory_of ?bs behind"
  have bs: "fst (bf_message_to_bytes hst params msg) = ?bs"
    using V W by (simp add: bf_message_to_bytes_def Let_def)
  have size: "snd (bf_message_to_bytes hst params msg) = length ?bs"
    using V W by (simp add: bf_message_to_bytes_def Let_def size_t_bytes_length)
  have lS: "length ?S = ?k" by (rule size_t_bytes_length)
  have rdS: "mem_read mem 0 ?k = ?S"
    using mem_read_memory_of [of 0 ?k ?bs behind] lS by (simp add: mem_def)
  have lv: "mem ?k = level (security params)"
  proof -
    have "mem ?k = ?bs ! ?k" unfolding mem_def using lS by (intro memory_of_inside) simp
    also have "\<dots> = level (security params)"
      using lS nth_append_length [of ?S "level (security params)"] by simp
    finally show ?thesis .
  qed
  have allU: "\<forall>i<length ?Ub. mem (?k + 1 + i) = ?Ub ! i"
  proof (intro allI impI)
    fix i assume i: "i < length ?Ub"
    have "mem (?k + 1 + i) = ?bs ! (?k + 1 + i)"
      unfolding mem_def using lS i by (intro memory_of_inside) simp
    also have "\<dots> = ?Ub ! i" using lS i by (rule nth_field)
    finally show "mem (?k + 1 + i) = ?Ub ! i" .
  qed
  have rdU: "element_from_bytes_G1 (pairing params) (\<lambda>i. mem (?k + 1 + i))
      = (msg_U msg, length ?Ub)"
    by (rule mp [OF spec [OF U] allU])
  have rdV: "mem_read mem (?k + 1 + length ?Ub) (hashlen (security params)) = msg_V msg"
    using mem_read_memory_of [of "?k + 1 + length ?Ub" "hashlen (security params)" ?bs behind]
      lS V by (simp add: mem_def)
  have rdW: "mem_read mem (?k + 1 + length ?Ub + hashlen (security params)) (msg_length msg)
      = msg_W msg"
    using mem_read_memory_of [of "?k + 1 + length ?Ub + hashlen (security params)"
        "msg_length msg" ?bs behind] lS V W by (simp add: mem_def)
  have "bf_message_from_bytes hst mem params = Some msg"
    by (simp only: bf_message_from_bytes_def Let_def rdS lv rdU rdV rdW
          size_t_roundtrip [OF range] prod.case simp_thms if_False) simp
  then have "bf_message_from_bytes hst
           (memory_of (fst (bf_message_to_bytes hst params msg)) behind) params = Some msg"
    by (simp only: bs mem_def)
  with bs size show ?thesis by simp
qed


text \<open>
  C8. A message with \<open>hashlen\<close> bytes of \<open>V\<close>, \<open>length\<close> bytes of \<open>W\<close> and a length that
  a \<open>size_t\<close> of the host holds is read back from its bytes as it was, with the same
  parameters and on the same host, wherever the buffer lies in memory, provided that
  the library reads the element \<open>U\<close> back from the bytes it wrote for it. The size
  returned by \<open>bf_message_to_bytes\<close> is the number of bytes written.
\<close>

theorem bf_message_bytes_roundtrip:
  fixes params :: "('par, 'g1, 'g2, 'gt) BFPublicParameters"
  assumes "length (msg_V msg) = hashlen (security params)"
    and "length (msg_W msg) = msg_length msg"
    and "msg_length msg < 256 ^ sizeof_size_t hst"
    and "reads_back (pairing params) (msg_U msg)"
  shows "bf_message_from_bytes hst
           (memory_of (fst (bf_message_to_bytes hst params msg)) behind) params = Some msg
         \<and> snd (bf_message_to_bytes hst params msg)
             = length (fst (bf_message_to_bytes hst params msg))"
  using assms unfolding reads_back_def by (rule from_bytes_of_to_bytes)

lemma toy_reads_back: "reads_back toy_pairing (Point 31 25)"
  by (simp add: reads_back_def toy_pairing_def point_of_bytes_def)

lemma toy_ct_fields:
  "msg_length toy_ct = 25" "msg_U toy_ct = Point 31 25"
  "length (msg_V toy_ct) = 20" "length (msg_W toy_ct) = 25"
  by (simp_all add: toy_ct_def)

theorem bf_message_bytes_roundtrip_witness:
  "length (msg_V toy_ct) = hashlen (security (toy_params 1))
   \<and> length (msg_W toy_ct) = msg_length toy_ct
   \<and> msg_length toy_ct < 256 ^ sizeof_size_t toy_host
   \<and> reads_back (pairing (toy_params 1)) (msg_U toy_ct)
   \<and> bf_message_from_bytes toy_host
        (memory_of (fst (bf_message_to_bytes toy_host (toy_params 1) toy_ct)) (\<lambda>i. 0))
        (toy_params 1) = Some toy_ct
   \<and> snd (bf_message_to_bytes toy_host (toy_params 1) toy_ct)
        = length (fst (bf_message_to_bytes toy_host (toy_params 1) toy_ct))"
proof -
  have 1: "length (msg_V toy_ct) = hashlen (security (toy_params 1))"
    by (simp add: toy_ct_fields toy_fields)
  have 2: "length (msg_W toy_ct) = msg_length toy_ct"
    by (simp add: toy_ct_fields)
  have 3: "msg_length toy_ct < 256 ^ sizeof_size_t toy_host"
    by (simp add: toy_ct_fields toy_host_def)
  have 4: "reads_back (pairing (toy_params 1)) (msg_U toy_ct)"
    by (simp add: toy_ct_fields toy_fields toy_reads_back)
  show ?thesis
    using 1 2 3 4 bf_message_bytes_roundtrip [OF 1 2 3 4, of "\<lambda>i. 0"]
    by blast
qed

lemma toy_level: "level (toy_security 1) = 1"
  by (simp add: toy_security_1)

lemma toy_to_bytes: "bf_message_to_bytes toy_host (toy_params 1) toy_ct = (toy_ct_bytes, 56)"
  by (simp add: toy_level bf_message_to_bytes_def Let_def toy_fields toy_host_def size_t_bytes_def
        le_bytes_def upt_eval toy_ct_def toy_pairing_def toy_ct_bytes_def)

lemma toy_from_bytes:
  "bf_message_from_bytes toy_host (memory_of toy_ct_bytes (\<lambda>i. 0)) (toy_params 1) = Some toy_ct"
proof -
  have 1: "length (msg_V toy_ct) = hashlen (security (toy_params 1))"
    by (simp add: toy_ct_fields toy_fields)
  have 2: "length (msg_W toy_ct) = msg_length toy_ct"
    by (simp add: toy_ct_fields)
  have 3: "msg_length toy_ct < 256 ^ sizeof_size_t toy_host"
    by (simp add: toy_ct_fields toy_host_def)
  have 4: "reads_back (pairing (toy_params 1)) (msg_U toy_ct)"
    by (simp add: toy_ct_fields toy_fields toy_reads_back)
  show ?thesis
    using from_bytes_of_to_bytes [OF 1 2 3 4 [unfolded reads_back_def], of "\<lambda>i. 0"]
    by (simp add: toy_to_bytes)
qed

section \<open>The facade\<close>

text \<open>
  C5. \<open>decrypt_ibe\<close> does not report a failed validation. The ciphertext for \<open>alice\<close> is
  well formed, \<open>bf_decrypt\<close> with the private key of \<open>bob\<close> returns \<open>false\<close>, and
  \<open>decrypt_ibe\<close> returns a buffer of 25 zero bytes with \<open>*out_length = 25\<close>, as it would
  for a plaintext of 25 zero bytes, and not the \<open>NULL\<close> that it returns when the
  ciphertext does not parse.
\<close>

theorem decrypt_ibe_hides_failed_validation:
  "bf_message_from_bytes toy_host (memory_of toy_ct_bytes (\<lambda>i. 0)) (toy_params 1) = Some toy_ct
   \<and> bf_decrypt (replicate 25 0) (toy_params 1)
        (bf_generate_private_key (toy_params 1) 7 bob) toy_ct = Some (False, replicate 25 0)
   \<and> decrypt_ibe toy_host (toy_params 1) (bf_generate_private_key (toy_params 1) 7 bob)
        (memory_of toy_ct_bytes (\<lambda>i. 0)) 56 = Some (Some (replicate 25 0, 25))"
proof -
  have d: "bf_decrypt (replicate 25 0) (toy_params 1)
        (bf_generate_private_key (toy_params 1) 7 bob) toy_ct = Some (False, replicate 25 0)"
    by (simp only: toy_keys toy_decrypt_bob) (simp add: replicate_eval)
  have "decrypt_ibe toy_host (toy_params 1) (bf_generate_private_key (toy_params 1) 7 bob)
        (memory_of toy_ct_bytes (\<lambda>i. 0)) 56 = Some (Some (replicate 25 0, 25))"
    by (simp add: decrypt_ibe_def toy_from_bytes toy_ct_fields d int_of_size_t_def)
  with toy_from_bytes d show ?thesis by simp
qed

section \<open>Adding secrets\<close>











section \<open>Public parameters as text\<close>

subsection \<open>Numbers\<close>

lemma char_digit_digit_char: "d < 36 \<Longrightarrow> char_digit (digit_char d) = Some d"
  by (auto simp add: char_digit_def digit_char_def Let_def)

lemma is_digit_digit_char: "d < base \<Longrightarrow> base \<le> 36 \<Longrightarrow> is_digit base (digit_char d)"
  by (simp add: is_digit_def char_digit_digit_char)

lemma digits_of_bound: "2 \<le> base \<Longrightarrow> d \<in> set (digits_of base n) \<Longrightarrow> d < base"
proof (induction base n rule: digits_of.induct)
  case (1 base n)
  show ?case
  proof (cases "n < base \<or> base < 2")
    case True
    with 1(2,3) show ?thesis by (subst (asm) digits_of.simps) auto
  next
    case False
    with 1(3) have "d \<in> set (digits_of base (n div base)) \<or> d = n mod base"
      by (subst (asm) digits_of.simps) auto
    with 1(1) [OF False 1(2)] 1(2) show ?thesis by auto
  qed
qed

lemma digits_of_nonempty: "digits_of base n \<noteq> []"
  by (subst digits_of.simps) simp

lemma digits_value_snoc:
  "digits_value base (ds @ [c]) = digits_value base ds * base + the (char_digit c)"
  by (simp add: digits_value_def)

lemma digits_value_nat_str: "2 \<le> base \<Longrightarrow> base \<le> 36 \<Longrightarrow> digits_value base (nat_str base n) = n"
proof (induction base n rule: digits_of.induct)
  case (1 base n)
  show ?case
  proof (cases "n < base \<or> base < 2")
    case True
    with 1(2) have nb: "n < base" by simp
    then have "digits_of base n = [n]" by (subst digits_of.simps) simp
    moreover from nb 1(3) have "n < 36" by simp
    ultimately show ?thesis by (simp add: nat_str_def digits_value_def char_digit_digit_char)
  next
    case False
    then have d: "digits_of base n = digits_of base (n div base) @ [n mod base]"
      by (subst digits_of.simps) simp
    have "n mod base < base" using 1(2) by simp
    with 1(3) have m: "n mod base < 36" by simp
    have "digits_value base (nat_str base (n div base)) = n div base"
      using 1(1) [OF False 1(2) 1(3)] .
    then show ?thesis
      by (simp add: nat_str_def d digits_value_snoc char_digit_digit_char m)
  qed
qed

lemma nat_str_digits: "2 \<le> base \<Longrightarrow> base \<le> 36 \<Longrightarrow> c \<in> set (nat_str base n) \<Longrightarrow> is_digit base c"
  by (auto simp add: nat_str_def intro: is_digit_digit_char digits_of_bound)

lemma nat_str_nonempty: "nat_str base n \<noteq> []"
  by (simp add: nat_str_def digits_of_nonempty)

lemma is_digit_not: "\<not> is_digit base newline" "\<not> is_digit base (CHR 0x00)" "\<not> is_digit base CHR ''-''"
  "\<not> is_digit base CHR ''+''"
  by (simp_all add: is_digit_def char_digit_def newline_def)

lemma is_digit_not_space: "is_digit base c \<Longrightarrow> \<not> isspace c"
  by (auto simp add: is_digit_def char_digit_def isspace_def Let_def split: if_splits option.splits)

lemma isspace_newline: "isspace newline"
  by (simp add: isspace_def newline_def)

lemma match_literal_append: "match_literal l (l @ s) = Scanned () s"
  by (induction l) simp_all

subsection \<open>Streams\<close>

lemma takeWhile_stop: "\<forall>c\<in>set xs. P c \<Longrightarrow> \<not> P y \<Longrightarrow> takeWhile P (xs @ y # ys) = xs"
  by (simp add: takeWhile_append2)

lemma dropWhile_stop: "\<forall>c\<in>set xs. P c \<Longrightarrow> \<not> P y \<Longrightarrow> dropWhile P (xs @ y # ys) = y # ys"
  by (simp add: dropWhile_append2)

lemma dropWhile_none: "xs \<noteq> [] \<Longrightarrow> \<not> P (hd xs) \<Longrightarrow> dropWhile P xs = xs"
  by (cases xs) simp_all

lemma c_string_id: "CHR 0x00 \<notin> set s \<Longrightarrow> c_string s = s"
  by (auto simp add: c_string_def takeWhile_eq_all_conv)

lemma nat_str_head: "2 \<le> base \<Longrightarrow> base \<le> 36 \<Longrightarrow> is_digit base (hd (nat_str base n))"
  using nat_str_digits [of base "hd (nat_str base n)" n] nat_str_nonempty [of base n]
  by simp

lemma scan_u8_nat_str:
  "scan_u8 (nat_str 10 n @ newline # rest) = Scanned (word_of_nat n) (newline # rest)"
proof -
  let ?ds = "nat_str 10 n"
  have dig: "\<forall>c\<in>set ?ds. is_digit 10 c"
    using nat_str_digits [of 10 _ n] by simp
  have ne: "?ds \<noteq> []" by (rule nat_str_nonempty)
  have hd_dig: "is_digit 10 (hd ?ds)" by (rule nat_str_head) simp_all
  have hd_eq: "hd (?ds @ newline # rest) = hd ?ds" using ne by simp
  have nospace: "\<not> isspace (hd (?ds @ newline # rest))"
    using hd_dig by (simp only: hd_eq is_digit_not_space not_False_eq_True)
  have s1: "dropWhile isspace (?ds @ newline # rest) = ?ds @ newline # rest"
    by (rule dropWhile_none [where P = isspace, OF _ nospace]) simp
  have nosign: "hd (?ds @ newline # rest) \<noteq> CHR ''-''" "hd (?ds @ newline # rest) \<noteq> CHR ''+''"
    using hd_dig is_digit_not(3,4) [of 10] by (auto simp only: hd_eq)
  have tw: "takeWhile (is_digit 10) (?ds @ newline # rest) = ?ds"
    by (rule takeWhile_stop [OF dig is_digit_not(1)])
  have dw: "dropWhile (is_digit 10) (?ds @ newline # rest) = newline # rest"
    by (rule dropWhile_stop [OF dig is_digit_not(1)])
  have v: "digits_value 10 ?ds = n" by (rule digits_value_nat_str) simp_all
  show ?thesis
    unfolding scan_u8_def Let_def s1
    using nosign ne by (simp add: tw dw v)
qed

lemma fscanf_security_level:
  assumes "rest \<noteq> []" "\<not> isspace (hd rest)"
  shows "fscanf_security (''security '' @ nat_str 10 n @ newline # rest) = Scanned (word_of_nat n) rest"
proof -
  have a: "''security '' @ nat_str 10 n @ newline # rest
         = ''security'' @ (CHR '' '' # nat_str 10 n @ newline # rest)"
    by simp
  have hd_dig: "is_digit 10 (hd (nat_str 10 n))" by (rule nat_str_head) simp_all
  have ne: "nat_str 10 n \<noteq> []" by (rule nat_str_nonempty)
  have sp: "isspace CHR '' ''" by (simp add: isspace_def)
  have "dropWhile isspace (nat_str 10 n @ newline # rest) = nat_str 10 n @ newline # rest"
    by (rule dropWhile_none) (use ne hd_dig is_digit_not_space in auto)
  then have b: "dropWhile isspace (CHR '' '' # nat_str 10 n @ newline # rest)
         = nat_str 10 n @ newline # rest"
    using sp by simp
  have c: "dropWhile isspace (newline # rest) = rest"
    using assms isspace_newline by (simp add: dropWhile_none)
  show ?thesis
    unfolding fscanf_security_def a match_literal_append
    by (simp only: scanned.case b scan_u8_nat_str c)
qed

lemma fgets_line:
  assumes "newline \<notin> set line" "length line < n - 1"
  shows "fgets n (line @ newline # rest) = Some (line @ [newline], rest)"
proof -
  have tw: "takeWhile (\<lambda>c. c \<noteq> newline) (line @ newline # rest) = line"
    by (rule takeWhile_stop) (use assms in auto)
  show ?thesis
    unfolding fgets_def Let_def tw using assms(2) by simp
qed

lemma mpz_inp_digits:
  assumes dig: "\<forall>c\<in>set ds. is_digit base c" and ne: "ds \<noteq> []"
  shows "mpz_inp_str base (ds @ newline # rest) = Some (int (digits_value base ds), newline # rest)"
    and "mpz_inp_str base (CHR ''-'' # ds @ newline # rest)
           = Some (- int (digits_value base ds), newline # rest)"
proof -
  have hd_dig: "is_digit base (hd ds)" using dig ne by simp
  have tw: "takeWhile (is_digit base) (ds @ newline # rest) = ds"
    by (rule takeWhile_stop [OF dig is_digit_not(1)])
  have dw: "dropWhile (is_digit base) (ds @ newline # rest) = newline # rest"
    by (rule dropWhile_stop [OF dig is_digit_not(1)])
  have nospace: "\<not> isspace (hd ds)" using hd_dig by (rule is_digit_not_space)
  have nosign: "hd ds \<noteq> CHR ''-''" using hd_dig is_digit_not(3) [of base] by auto
  have s1: "dropWhile isspace (ds @ newline # rest) = ds @ newline # rest"
    by (rule dropWhile_none) (use ne nospace in auto)
  have h: "hd (ds @ newline # rest) \<noteq> CHR ''-''" using ne nosign by simp
  show "mpz_inp_str base (ds @ newline # rest) = Some (int (digits_value base ds), newline # rest)"
    unfolding mpz_inp_str_def Let_def s1
    using ne h by (simp add: tw dw)
  have sp: "\<not> isspace CHR ''-''" by (simp add: isspace_def)
  have s2: "dropWhile isspace (CHR ''-'' # ds @ newline # rest) = CHR ''-'' # ds @ newline # rest"
    using sp by simp
  show "mpz_inp_str base (CHR ''-'' # ds @ newline # rest)
           = Some (- int (digits_value base ds), newline # rest)"
    unfolding mpz_inp_str_def Let_def s2
    using ne by (simp add: tw dw)
qed

lemma mpz_inp_out:
  assumes "2 \<le> base" "base \<le> 36"
  shows "mpz_inp_str base (mpz_out_str base v @ newline # rest) = Some (v, newline # rest)"
proof -
  define ds where "ds = nat_str base (nat \<bar>v\<bar>)"
  have dig: "\<forall>c\<in>set ds. is_digit base c"
    unfolding ds_def using nat_str_digits [OF assms] by simp
  have ne: "ds \<noteq> []" unfolding ds_def by (rule nat_str_nonempty)
  have v: "digits_value base ds = nat \<bar>v\<bar>" unfolding ds_def by (rule digits_value_nat_str [OF assms])
  show ?thesis
  proof (cases "v < 0")
    case True
    have "mpz_out_str base v @ newline # rest = CHR ''-'' # ds @ newline # rest"
      using True by (simp add: mpz_out_str_def ds_def)
    then show ?thesis
      using True by (simp add: mpz_inp_digits(2) [OF dig ne] v)
  next
    case False
    have "mpz_out_str base v @ newline # rest = ds @ newline # rest"
      using False by (simp add: mpz_out_str_def ds_def)
    then show ?thesis
      using False by (simp add: mpz_inp_digits(1) [OF dig ne] v)
  qed
qed

subsection \<open>Copies\<close>

lemma nat_str_no_zero: "2 \<le> base \<Longrightarrow> base \<le> 36 \<Longrightarrow> CHR 0x00 \<notin> set (nat_str base n)"
  using nat_str_digits [of base "CHR 0x00" n] is_digit_not(2) [of base] by auto

lemma mpz_out_str_no_zero: "2 \<le> base \<Longrightarrow> base \<le> 36 \<Longrightarrow> CHR 0x00 \<notin> set (mpz_out_str base v)"
  by (simp add: mpz_out_str_def nat_str_no_zero)

lemma bf_params_to_file_no_zero:
  assumes "params_as_text lib ossl params"
  shows "CHR 0x00 \<notin> set (bf_params_to_file lib params)"
  using assms
  by (simp add: params_as_text_def element_as_text_def Let_def bf_params_to_file_def
        nat_str_no_zero mpz_out_str_no_zero MPZ_OUTPUT_BASE_def newline_def)

lemma bf_params_from_file_to_file:
  fixes params :: "('par, 'g1, 'g2, 'gt) BFPublicParameters"
  assumes as_text: "params_as_text lib ossl params"
  shows "bf_params_from_file lib ossl (bf_params_to_file lib params) calloc_security
           = Some (params\<lparr>P_pub_precomp := P_pub params\<rparr>)"
proof -
  define sP where "sP = element_snprint_G1 (pairing params) (P_base params)"
  define sPub where "sPub = element_snprint_G1 (pairing params) (P_pub params)"
  define qs where "qs = mpz_out_str MPZ_OUTPUT_BASE (q_ord params)"
  define ps where "ps = pbc_param_out_str lib (pbc_par params)"
  define r3 where "r3 = qs @ newline # ps"
  define r2 where "r2 = sPub @ newline # r3"
  define r1 where "r1 = sP @ newline # r2"
  have sec: "snd (setup_security ossl calloc_security (level (security params))) = security params"
    and pr: "pairing_init_pbc_param lib (pbc_par params) = pairing params"
    and par: "pbc_param_init_set_str lib (newline # ps) = Some (pbc_par params)"
    and P: "sP \<noteq> []" "\<not> isspace (hd sP)" "newline \<notin> set sP" "length sP < BUFFER_SIZE - 1"
           "fst (element_set_str_G1 (pairing params) (sP @ [newline])) = P_base params"
           "snd (element_set_str_G1 (pairing params) (sP @ [newline])) \<noteq> 0"
    and Pub: "newline \<notin> set sPub" "length sPub < BUFFER_SIZE - 1"
           "fst (element_set_str_G1 (pairing params) (sPub @ [newline])) = P_pub params"
           "snd (element_set_str_G1 (pairing params) (sPub @ [newline])) \<noteq> 0"
    using as_text by (simp_all add: params_as_text_def element_as_text_def Let_def sP_def sPub_def ps_def)
  have written: "bf_params_to_file lib params
       = ''security '' @ nat_str 10 (unat (level (security params))) @ newline # r1"
    by (simp add: bf_params_to_file_def r1_def r2_def r3_def sP_def sPub_def qs_def ps_def)
  have r1: "r1 \<noteq> []" "\<not> isspace (hd r1)"
    using P(1,2) by (simp_all add: r1_def)
  have lv: "(word_of_nat (unat (level (security params))) :: u8) = level (security params)"
    by simp
  have 1: "fscanf_security (bf_params_to_file lib params) = Scanned (level (security params)) r1"
    unfolding written by (simp only: fscanf_security_level [OF r1] lv)
  have 2: "fgets BUFFER_SIZE r1 = Some (sP @ [newline], r2)"
    unfolding r1_def by (rule fgets_line [OF P(3,4)])
  have 3: "fgets BUFFER_SIZE r2 = Some (sPub @ [newline], r3)"
    unfolding r2_def by (rule fgets_line [OF Pub(1,2)])
  have 4: "mpz_inp_str MPZ_OUTPUT_BASE r3 = Some (q_ord params, newline # ps)"
    unfolding r3_def qs_def by (rule mpz_inp_out) (simp_all add: MPZ_OUTPUT_BASE_def)
  have rec: "\<lparr>security = security params, pbc_par = pbc_par params, pairing = pairing params,
              P_base = P_base params, P_pub = P_pub params, P_pub_precomp = P_pub params,
              q_ord = q_ord params\<rparr> = params\<lparr>P_pub_precomp := P_pub params\<rparr>"
    by simp
  show ?thesis
    unfolding bf_params_from_file_def 1 scanned.case Let_def 2 3 4 option.case prod.case
    using P(5,6) Pub(3,4) by (simp add: sec par pr rec)
qed

lemma copy_params_copies:
  fixes params :: "('par, 'g1, 'g2, 'gt) BFPublicParameters"
  assumes as_text: "params_as_text lib ossl params"
  shows "copy_params lib ossl params = Some (params\<lparr>P_pub_precomp := P_pub params\<rparr>)"
  unfolding copy_params_def parse_system_params_def format_system_params_def
    bf_params_from_string_def bf_params_to_string_def
  by (simp only: c_string_id [OF bf_params_to_file_no_zero [OF as_text]]
        bf_params_from_file_to_file [OF as_text])


subsection \<open>The small instance as text\<close>

lemma toy_P_base_as_text: "element_as_text toy_pairing (Point 31 18)"
  by code_simp

lemma toy_P_pub_as_text: "element_as_text toy_pairing (Point 13 24)"
  by code_simp

lemma toy_descriptor:
  "CHR 0x00 \<notin> set (pbc_param_out_str toy_pbc ''type a'')"
  "pbc_param_init_set_str toy_pbc (newline # pbc_param_out_str toy_pbc ''type a'') = Some ''type a''"
  by code_simp+

lemma toy_pbc_pairing: "pairing_init_pbc_param toy_pbc par = toy_pairing"
  by (simp add: toy_pbc_def)

lemma toy_params_fields:
  "pbc_par (toy_params 1) = ''type a''" "P_pub (toy_params 1) = Point 13 24"
  by (simp_all add: toy_params_1)

lemma toy_security_again:
  "snd (setup_security toy_openssl calloc_security (level (toy_security 1))) = toy_security 1"
  by (simp only: toy_level) (simp add: toy_security_def)

lemma toy_params_as_text: "params_as_text toy_pbc toy_openssl (toy_params 1)"
  unfolding params_as_text_def
  by (simp add: toy_fields toy_params_fields toy_security_again toy_pbc_pairing toy_descriptor
        toy_P_base_as_text toy_P_pub_as_text)

lemma toy_shard_fields:
  "level (security toy_shard) = 1" "q_ord toy_shard = 11" "P_pub toy_shard = Point 23 35"
  by (simp_all add: toy_shard_def bf_generate_shard_def Let_def toy_fields toy_level)
     code_simp

lemma toy_sum: "element_add_G1 toy_pairing (Point 13 24) (Point 23 35) = Point 31 25"
  by code_simp

lemma toy_level_2: "level (security (toy_params 2)) = 2"
  by (simp add: toy_params_def bf_generate_shard_def Let_def toy_security_def setup_security_def)


section \<open>Sums of public parameters\<close>

text \<open>
  C7. For parameters \<open>params1\<close> that survive their text (\<open>params_as_text\<close>: they are as
  \<open>bf_setup\<close> leaves them, and the library reads back what it writes), \<open>add_public\<close>
  returns \<open>NULL\<close> exactly when the levels differ or the orders \<open>q\<close> differ. Otherwise it
  returns parameters that have every field of \<open>params1\<close> but \<open>P_pub\<close>, which is the sum of
  the two \<open>P_pub\<close> in G1, and the precomputation, which is built from that sum.
\<close>

theorem add_public_sums_P_pub:
  fixes params1 params2 :: "('par, 'g1, 'g2, 'gt) BFPublicParameters"
  assumes "params_as_text lib ossl params1"
  shows "add_public lib ossl params1 params2 =
     (if level (security params1) \<noteq> level (security params2) \<or> q_ord params1 \<noteq> q_ord params2
      then Some None
      else Some (Some (params1
             \<lparr>P_pub := element_add_G1 (pairing params1) (P_pub params1) (P_pub params2),
              P_pub_precomp := element_add_G1 (pairing params1) (P_pub params1) (P_pub params2)\<rparr>)))"
  unfolding add_public_def copy_params_copies [OF assms]
  by (simp add: Let_def)


text \<open>
  On the small instance: the shards with the secrets 7 and 3 add up to the parameters
  with \<open>P_pub = [10]P\<close>, and parameters of the levels 1 and 2 are refused.
\<close>

theorem add_public_sums_P_pub_witness:
  "params_as_text toy_pbc toy_openssl (toy_params 1)
   \<and> add_public toy_pbc toy_openssl (toy_params 1) toy_shard
       = Some (Some ((toy_params 1)\<lparr>P_pub := Point 31 25, P_pub_precomp := Point 31 25\<rparr>))
   \<and> add_public toy_pbc toy_openssl (toy_params 1) (toy_params 2) = Some None"
  using add_public_sums_P_pub [OF toy_params_as_text, of toy_shard]
    add_public_sums_P_pub [OF toy_params_as_text, of "toy_params 2"]
  by (simp add: toy_params_as_text toy_fields toy_params_fields toy_level toy_shard_fields
        toy_sum toy_level_2)

end
